theory Spec2Isabelle
  imports Complex_Main "HOL-Library.Char_ord" "HOL-Library.List_Lexorder"
begin

section \<open>Values shared by the pipeline\<close>

text \<open>
  A \<open>time.Time\<close> is an instant, counted in nanoseconds since the Unix epoch; a
  \<open>float64\<close> read from JSON is finite and is represented by the rational number it
  denotes. Go's \<open>int\<close> is 64 bits wide on the platform the Dockerfile builds for; the
  record fields of that type range over \<open>int\<close> and the places where a narrower range
  matters (the SQL \<open>INT\<close> columns) say so.
\<close>

type_synonym time = int
type_synonym float64 = rat

text \<open>
  Errors. \<open>Errorf m\<close> is \<open>fmt.Errorf(m)\<close> with its message formatted, \<open>Wrapf m e\<close> is
  \<open>fmt.Errorf(m + ": %w", e)\<close>, and the other constructors are the errors the libraries
  return (database/sql with the SQL Server driver, go-redis, kafka-go, encoding/json).
\<close>

datatype sql_error =
    ConnectionFailed
  | ForeignKeyViolation
  | PrimaryKeyViolation
  | CheckViolation
  | ArithmeticOverflow
  | ValueRefused

datatype error =
    Errorf string
  | Wrapf string error
  | SqlError sql_error
  | RedisUnavailable
  | KafkaUnavailable
  | JsonSyntaxError
  | JsonTypeError

section \<open>The relational store (internal/store, sql/schema.sql)\<close>

text \<open>
  The Go structs of \<open>models.go\<close> double as the rows of the tables of \<open>schema.sql\<close>:
  each field is the column its \<open>db\<close> tag names. Field names that two structs share
  carry the struct's initial as a suffix.
\<close>

record User =
  UserID :: string
  Name :: string
  Email :: string
  CreatedAt :: time
  UpdatedAt :: time

record Order =
  OrderID :: string
  UserID_o :: string
  Total :: float64
  Status :: string
  CreatedAt_o :: time
  UpdatedAt_o :: time

record Payment =
  OrderID_p :: string
  Status_p :: string
  Amount :: float64
  SettledAt :: time
  UpdatedAt_p :: time

record Inventory =
  SKU :: string
  Quantity :: int
  LastAdjustedAt :: time

record ProductReview =
  ReviewID :: string
  ProductName :: string
  Username :: string
  Rating :: int
  Remarks :: string
  CreatedAt_r :: time
  UpdatedAt_r :: time

text \<open>
  The database: one list of rows per table, and whether the server can be reached
  (\<open>ExecContext\<close> returns the driver's error when it cannot).
\<close>

record db =
  users :: "User list"
  orders :: "Order list"
  payments :: "Payment list"
  inventory :: "Inventory list"
  product_reviews :: "ProductReview list"
  online :: bool

text \<open>
  A column does not hold the Go value bound to a statement but what SQL Server makes of
  it, and a key is not compared byte by byte but under the column's collation. What
  the server does is outside the repository, so it is a parameter of the model:
  \<^item> \<open>to_varchar n v\<close>, the value a \<open>VARCHAR(n)\<close> column stores for the string \<open>v\<close>, and
    \<open>to_text v\<close> for \<open>VARCHAR(MAX)\<close>;
  \<^item> \<open>to_decimal v\<close>, the value a \<open>DECIMAL(18,2)\<close> column stores for the float \<open>v\<close>;
  \<^item> \<open>to_datetime2 v\<close>, the value a \<open>DATETIME2\<close> column stores for the instant \<open>v\<close>;
  \<^item> \<open>collate v\<close>, the sort key of the string \<open>v\<close> under the collation of the key
    columns: \<open>a = b\<close> holds in T-SQL exactly when \<open>a\<close> and \<open>b\<close> have the same sort key.

  A conversion is \<open>None\<close> where the server refuses the value (a string that would be
  truncated, a number or a date out of range). The \<open>INT\<close> columns are modelled
  directly: a value outside the 32-bit range is refused with an arithmetic overflow.
  Where a statement is refused for more than one reason, the error returned is that of
  one of them; nothing below depends on which.
\<close>

record columns =
  to_varchar :: "nat \<Rightarrow> string \<Rightarrow> string option"
  to_text :: "string \<Rightarrow> string option"
  to_decimal :: "float64 \<Rightarrow> float64 option"
  to_datetime2 :: "time \<Rightarrow> time option"
  collate :: "string \<Rightarrow> string"

definition sql_int :: "int \<Rightarrow> bool" where
  "sql_int n = (- (2 ^ 31) \<le> n \<and> n < 2 ^ 31)"

text \<open>
  \<open>UpsertUser\<close>:
  \<^verbatim>\<open>IF EXISTS (SELECT 1 FROM users WHERE user_id = ?)
      UPDATE users SET name = ?, email = ?, updated_at = ? WHERE user_id = ?
  ELSE
      INSERT INTO users (user_id, name, email, created_at, updated_at) VALUES (?, ?, ?, ?, ?)\<close>
  \<open>user_set\<close> is the record with the values of the \<open>SET\<close> list as their columns store
  them, and \<open>user_values\<close> is the row the \<open>VALUES\<close> list makes; either is \<open>None\<close> when
  a value is refused. The primary key refuses an insert whose key equals a stored one.
\<close>

definition user_set :: "columns \<Rightarrow> User \<Rightarrow> User option" where
  "user_set C user =
     (case to_varchar C 255 (Name user) of None \<Rightarrow> None | Some n \<Rightarrow>
      case to_varchar C 255 (Email user) of None \<Rightarrow> None | Some e \<Rightarrow>
      case to_datetime2 C (UpdatedAt user) of None \<Rightarrow> None | Some u \<Rightarrow>
        Some (user\<lparr>Name := n, Email := e, UpdatedAt := u\<rparr>))"

definition user_values :: "columns \<Rightarrow> User \<Rightarrow> User option" where
  "user_values C user =
     (case to_varchar C 100 (UserID user) of None \<Rightarrow> None | Some k \<Rightarrow>
      case to_varchar C 255 (Name user) of None \<Rightarrow> None | Some n \<Rightarrow>
      case to_varchar C 255 (Email user) of None \<Rightarrow> None | Some e \<Rightarrow>
      case to_datetime2 C (CreatedAt user) of None \<Rightarrow> None | Some c \<Rightarrow>
      case to_datetime2 C (UpdatedAt user) of None \<Rightarrow> None | Some u \<Rightarrow>
        Some \<lparr>UserID = k, Name = n, Email = e, CreatedAt = c, UpdatedAt = u\<rparr>)"

definition UpsertUser :: "columns \<Rightarrow> User \<Rightarrow> db \<Rightarrow> error + db" where
  "UpsertUser C user s =
     (if \<not> online s then Inl (SqlError ConnectionFailed)
      else if \<exists>r \<in> set (users s). collate C (UserID r) = collate C (UserID user)
      then (case user_set C user of
              None \<Rightarrow> Inl (SqlError ValueRefused)
            | Some v \<Rightarrow>
                Inr (s\<lparr>users :=
                  map (\<lambda>r. if collate C (UserID r) = collate C (UserID user)
                           then r\<lparr>Name := Name v, Email := Email v, UpdatedAt := UpdatedAt v\<rparr>
                           else r) (users s)\<rparr>))
      else (case user_values C user of
              None \<Rightarrow> Inl (SqlError ValueRefused)
            | Some row \<Rightarrow>
                if \<exists>r \<in> set (users s). collate C (UserID r) = collate C (UserID row)
                then Inl (SqlError PrimaryKeyViolation)
                else Inr (s\<lparr>users := users s @ [row]\<rparr>)))"

text \<open>
  \<open>UpsertOrder\<close>: the update sets \<open>user_id\<close>, \<open>total\<close>, \<open>status\<close> and \<open>updated_at\<close>;
  the insert writes all six columns. \<open>FK_Orders_Users\<close> makes both fail when the
  \<open>user_id\<close> written equals that of no row of \<open>users\<close>.
\<close>

definition order_set :: "columns \<Rightarrow> Order \<Rightarrow> Order option" where
  "order_set C order =
     (case to_varchar C 100 (UserID_o order) of None \<Rightarrow> None | Some w \<Rightarrow>
      case to_decimal C (Total order) of None \<Rightarrow> None | Some t \<Rightarrow>
      case to_varchar C 50 (Status order) of None \<Rightarrow> None | Some st \<Rightarrow>
      case to_datetime2 C (UpdatedAt_o order) of None \<Rightarrow> None | Some u \<Rightarrow>
        Some (order\<lparr>UserID_o := w, Total := t, Status := st, UpdatedAt_o := u\<rparr>))"

definition order_values :: "columns \<Rightarrow> Order \<Rightarrow> Order option" where
  "order_values C order =
     (case to_varchar C 100 (OrderID order) of None \<Rightarrow> None | Some k \<Rightarrow>
      case to_varchar C 100 (UserID_o order) of None \<Rightarrow> None | Some w \<Rightarrow>
      case to_decimal C (Total order) of None \<Rightarrow> None | Some t \<Rightarrow>
      case to_varchar C 50 (Status order) of None \<Rightarrow> None | Some st \<Rightarrow>
      case to_datetime2 C (CreatedAt_o order) of None \<Rightarrow> None | Some c \<Rightarrow>
      case to_datetime2 C (UpdatedAt_o order) of None \<Rightarrow> None | Some u \<Rightarrow>
        Some \<lparr>OrderID = k, UserID_o = w, Total = t, Status = st, CreatedAt_o = c,
              UpdatedAt_o = u\<rparr>)"

definition user_known :: "columns \<Rightarrow> db \<Rightarrow> string \<Rightarrow> bool" where
  "user_known C s w = (\<exists>u \<in> set (users s). collate C (UserID u) = collate C w)"

definition UpsertOrder :: "columns \<Rightarrow> Order \<Rightarrow> db \<Rightarrow> error + db" where
  "UpsertOrder C order s =
     (if \<not> online s then Inl (SqlError ConnectionFailed)
      else if \<exists>r \<in> set (orders s). collate C (OrderID r) = collate C (OrderID order)
      then (case order_set C order of
              None \<Rightarrow> Inl (SqlError ValueRefused)
            | Some v \<Rightarrow>
                if \<not> user_known C s (UserID_o v) then Inl (SqlError ForeignKeyViolation)
                else Inr (s\<lparr>orders :=
                  map (\<lambda>r. if collate C (OrderID r) = collate C (OrderID order)
                           then r\<lparr>UserID_o := UserID_o v, Total := Total v, Status := Status v,
                                  UpdatedAt_o := UpdatedAt_o v\<rparr>
                           else r) (orders s)\<rparr>))
      else (case order_values C order of
              None \<Rightarrow> Inl (SqlError ValueRefused)
            | Some row \<Rightarrow>
                if \<exists>r \<in> set (orders s). collate C (OrderID r) = collate C (OrderID row)
                then Inl (SqlError PrimaryKeyViolation)
                else if \<not> user_known C s (UserID_o row)
                then Inl (SqlError ForeignKeyViolation)
                else Inr (s\<lparr>orders := orders s @ [row]\<rparr>)))"

text \<open>
  \<open>UpsertPayment\<close>: the update sets \<open>status\<close>, \<open>amount\<close>, \<open>settled_at\<close> and
  \<open>updated_at\<close>, which with the key are all the columns of \<open>payments\<close>.
\<close>

definition payment_set :: "columns \<Rightarrow> Payment \<Rightarrow> Payment option" where
  "payment_set C payment =
     (case to_varchar C 50 (Status_p payment) of None \<Rightarrow> None | Some st \<Rightarrow>
      case to_decimal C (Amount payment) of None \<Rightarrow> None | Some a \<Rightarrow>
      case to_datetime2 C (SettledAt payment) of None \<Rightarrow> None | Some t \<Rightarrow>
      case to_datetime2 C (UpdatedAt_p payment) of None \<Rightarrow> None | Some u \<Rightarrow>
        Some (payment\<lparr>Status_p := st, Amount := a, SettledAt := t, UpdatedAt_p := u\<rparr>))"

definition payment_values :: "columns \<Rightarrow> Payment \<Rightarrow> Payment option" where
  "payment_values C payment =
     (case to_varchar C 100 (OrderID_p payment) of None \<Rightarrow> None | Some k \<Rightarrow>
      case to_varchar C 50 (Status_p payment) of None \<Rightarrow> None | Some st \<Rightarrow>
      case to_decimal C (Amount payment) of None \<Rightarrow> None | Some a \<Rightarrow>
      case to_datetime2 C (SettledAt payment) of None \<Rightarrow> None | Some t \<Rightarrow>
      case to_datetime2 C (UpdatedAt_p payment) of None \<Rightarrow> None | Some u \<Rightarrow>
        Some \<lparr>OrderID_p = k, Status_p = st, Amount = a, SettledAt = t, UpdatedAt_p = u\<rparr>)"

definition UpsertPayment :: "columns \<Rightarrow> Payment \<Rightarrow> db \<Rightarrow> error + db" where
  "UpsertPayment C payment s =
     (if \<not> online s then Inl (SqlError ConnectionFailed)
      else if \<exists>r \<in> set (payments s). collate C (OrderID_p r) = collate C (OrderID_p payment)
      then (case payment_set C payment of
              None \<Rightarrow> Inl (SqlError ValueRefused)
            | Some v \<Rightarrow>
                Inr (s\<lparr>payments :=
                  map (\<lambda>r. if collate C (OrderID_p r) = collate C (OrderID_p payment)
                           then r\<lparr>Status_p := Status_p v, Amount := Amount v,
                                  SettledAt := SettledAt v, UpdatedAt_p := UpdatedAt_p v\<rparr>
                           else r) (payments s)\<rparr>))
      else (case payment_values C payment of
              None \<Rightarrow> Inl (SqlError ValueRefused)
            | Some row \<Rightarrow>
                if \<exists>r \<in> set (payments s). collate C (OrderID_p r) = collate C (OrderID_p row)
                then Inl (SqlError PrimaryKeyViolation)
                else Inr (s\<lparr>payments := payments s @ [row]\<rparr>)))"

text \<open>
  \<open>UpsertInventory\<close>: the update is \<open>SET quantity = quantity + ?, last_adjusted_at = ?\<close>,
  the insert writes the incoming quantity. \<open>quantity\<close> is an \<open>INT\<close> column.
\<close>

definition inventory_set :: "columns \<Rightarrow> Inventory \<Rightarrow> Inventory option" where
  "inventory_set C item =
     (case to_datetime2 C (LastAdjustedAt item) of None \<Rightarrow> None | Some t \<Rightarrow>
        Some (item\<lparr>LastAdjustedAt := t\<rparr>))"

definition inventory_values :: "columns \<Rightarrow> Inventory \<Rightarrow> Inventory option" where
  "inventory_values C item =
     (case to_varchar C 100 (SKU item) of None \<Rightarrow> None | Some k \<Rightarrow>
      case to_datetime2 C (LastAdjustedAt item) of None \<Rightarrow> None | Some t \<Rightarrow>
        Some \<lparr>SKU = k, Quantity = Quantity item, LastAdjustedAt = t\<rparr>)"

definition UpsertInventory :: "columns \<Rightarrow> Inventory \<Rightarrow> db \<Rightarrow> error + db" where
  "UpsertInventory C item s =
     (if \<not> online s then Inl (SqlError ConnectionFailed)
      else if \<exists>r \<in> set (inventory s). collate C (SKU r) = collate C (SKU item)
      then (if \<exists>r \<in> set (inventory s). collate C (SKU r) = collate C (SKU item) \<and>
                 \<not> sql_int (Quantity r + Quantity item)
            then Inl (SqlError ArithmeticOverflow)
            else case inventory_set C item of
                   None \<Rightarrow> Inl (SqlError ValueRefused)
                 | Some v \<Rightarrow>
                     Inr (s\<lparr>inventory :=
                       map (\<lambda>r. if collate C (SKU r) = collate C (SKU item)
                                then r\<lparr>Quantity := Quantity r + Quantity v,
                                       LastAdjustedAt := LastAdjustedAt v\<rparr>
                                else r) (inventory s)\<rparr>))
      else if \<not> sql_int (Quantity item) then Inl (SqlError ArithmeticOverflow)
      else (case inventory_values C item of
              None \<Rightarrow> Inl (SqlError ValueRefused)
            | Some row \<Rightarrow>
                if \<exists>r \<in> set (inventory s). collate C (SKU r) = collate C (SKU row)
                then Inl (SqlError PrimaryKeyViolation)
                else Inr (s\<lparr>inventory := inventory s @ [row]\<rparr>)))"

text \<open>
  \<open>UpsertProductReview\<close>: the update sets \<open>product_name\<close>, \<open>username\<close>, \<open>rating\<close>,
  \<open>remarks\<close> and \<open>updated_at\<close>; the insert writes all seven columns. \<open>rating\<close> is
  \<open>INT NOT NULL CHECK (rating >= 1 AND rating <= 5)\<close>, \<open>remarks\<close> is \<open>VARCHAR(MAX)\<close>.
\<close>

definition review_set :: "columns \<Rightarrow> ProductReview \<Rightarrow> ProductReview option" where
  "review_set C review =
     (case to_varchar C 255 (ProductName review) of None \<Rightarrow> None | Some p \<Rightarrow>
      case to_varchar C 255 (Username review) of None \<Rightarrow> None | Some n \<Rightarrow>
      case to_text C (Remarks review) of None \<Rightarrow> None | Some m \<Rightarrow>
      case to_datetime2 C (UpdatedAt_r review) of None \<Rightarrow> None | Some u \<Rightarrow>
        Some (review\<lparr>ProductName := p, Username := n, Remarks := m, UpdatedAt_r := u\<rparr>))"

definition review_values :: "columns \<Rightarrow> ProductReview \<Rightarrow> ProductReview option" where
  "review_values C review =
     (case to_varchar C 100 (ReviewID review) of None \<Rightarrow> None | Some k \<Rightarrow>
      case to_varchar C 255 (ProductName review) of None \<Rightarrow> None | Some p \<Rightarrow>
      case to_varchar C 255 (Username review) of None \<Rightarrow> None | Some n \<Rightarrow>
      case to_text C (Remarks review) of None \<Rightarrow> None | Some m \<Rightarrow>
      case to_datetime2 C (CreatedAt_r review) of None \<Rightarrow> None | Some c \<Rightarrow>
      case to_datetime2 C (UpdatedAt_r review) of None \<Rightarrow> None | Some u \<Rightarrow>
        Some \<lparr>ReviewID = k, ProductName = p, Username = n, Rating = Rating review,
              Remarks = m, CreatedAt_r = c, UpdatedAt_r = u\<rparr>)"

definition UpsertProductReview :: "columns \<Rightarrow> ProductReview \<Rightarrow> db \<Rightarrow> error + db" where
  "UpsertProductReview C review s =
     (if \<not> online s then Inl (SqlError ConnectionFailed)
      else if \<not> sql_int (Rating review) then Inl (SqlError ArithmeticOverflow)
      else if \<not> (1 \<le> Rating review \<and> Rating review \<le> 5) then Inl (SqlError CheckViolation)
      else if \<exists>r \<in> set (product_reviews s). collate C (ReviewID r) = collate C (ReviewID review)
      then (case review_set C review of
              None \<Rightarrow> Inl (SqlError ValueRefused)
            | Some v \<Rightarrow>
                Inr (s\<lparr>product_reviews :=
                  map (\<lambda>r. if collate C (ReviewID r) = collate C (ReviewID review)
                           then r\<lparr>ProductName := ProductName v, Username := Username v,
                                  Rating := Rating v, Remarks := Remarks v,
                                  UpdatedAt_r := UpdatedAt_r v\<rparr>
                           else r) (product_reviews s)\<rparr>))
      else (case review_values C review of
              None \<Rightarrow> Inl (SqlError ValueRefused)
            | Some row \<Rightarrow>
                if \<exists>r \<in> set (product_reviews s). collate C (ReviewID r) = collate C (ReviewID row)
                then Inl (SqlError PrimaryKeyViolation)
                else Inr (s\<lparr>product_reviews := product_reviews s @ [row]\<rparr>)))"

text \<open>
  The read side: \<open>GetUser\<close>, \<open>GetOrder\<close>, \<open>GetPayment\<close> and \<open>GetProductReview\<close> scan the
  first row with the key and return \<open>nil, nil\<close> when there is none.
\<close>

definition GetUser :: "columns \<Rightarrow> string \<Rightarrow> db \<Rightarrow> error + User option" where
  "GetUser C userID s =
     (if \<not> online s then Inl (SqlError ConnectionFailed)
      else Inr (find (\<lambda>r. collate C (UserID r) = collate C userID) (users s)))"

definition GetOrder :: "columns \<Rightarrow> string \<Rightarrow> db \<Rightarrow> error + Order option" where
  "GetOrder C orderID s =
     (if \<not> online s then Inl (SqlError ConnectionFailed)
      else Inr (find (\<lambda>r. collate C (OrderID r) = collate C orderID) (orders s)))"

definition GetPayment :: "columns \<Rightarrow> string \<Rightarrow> db \<Rightarrow> error + Payment option" where
  "GetPayment C orderID s =
     (if \<not> online s then Inl (SqlError ConnectionFailed)
      else Inr (find (\<lambda>r. collate C (OrderID_p r) = collate C orderID) (payments s)))"

definition GetProductReview :: "columns \<Rightarrow> string \<Rightarrow> db \<Rightarrow> error + ProductReview option" where
  "GetProductReview C reviewID s =
     (if \<not> online s then Inl (SqlError ConnectionFailed)
      else Inr (find (\<lambda>r. collate C (ReviewID r) = collate C reviewID) (product_reviews s)))"

text \<open>
  What the schema guarantees of every database state: no two rows of a table have equal
  primary keys, every order's \<open>user_id\<close> equals that of a user, quantities fit \<open>INT\<close>, and
  ratings pass the \<open>CHECK\<close>.
\<close>

definition schema_ok :: "columns \<Rightarrow> db \<Rightarrow> bool" where
  "schema_ok C s =
     (distinct (map (\<lambda>r. collate C (UserID r)) (users s)) \<and>
      distinct (map (\<lambda>r. collate C (OrderID r)) (orders s)) \<and>
      distinct (map (\<lambda>r. collate C (OrderID_p r)) (payments s)) \<and>
      distinct (map (\<lambda>r. collate C (SKU r)) (inventory s)) \<and>
      distinct (map (\<lambda>r. collate C (ReviewID r)) (product_reviews s)) \<and>
      list_all (\<lambda>r. user_known C s (UserID_o r)) (orders s) \<and>
      list_all (\<lambda>r. sql_int (Quantity r)) (inventory s) \<and>
      list_all (\<lambda>r. 1 \<le> Rating r \<and> Rating r \<le> 5) (product_reviews s))"

definition empty_db :: db where
  "empty_db = \<lparr>users = [], orders = [], payments = [], inventory = [],
               product_reviews = [], online = True\<rparr>"

section \<open>Go values and JSON (encoding/json)\<close>

text \<open>
  The dynamically typed values the program handles (\<open>interface{}\<close>): what
  \<open>json.Unmarshal\<close> produces (\<open>nil\<close>, \<open>bool\<close>, \<open>float64\<close>, \<open>string\<close>,
  \<open>[]interface{}\<close>, \<open>map[string]interface{}\<close>) and what the program adds to a
  dead-letter record (\<open>int\<close>, \<open>int64\<close>, \<open>time.Time\<close>). A Go string is a sequence of
  bytes, as \<open>string\<close> is here. A map is kept as the list of its entries in ascending
  key order, without duplicates.
\<close>

datatype gval =
    GNil
  | GBool bool
  | GFloat64 float64
  | GInt int
  | GString string
  | GTime time
  | GSlice "gval list"
  | GMap "(string \<times> gval) list"

text \<open>
  A JSON text, by its syntax tree: an object's members in the order of the text, a string
  by the bytes it denotes, a number by the \<open>float64\<close> its literal converts to.
\<close>

datatype json =
    JNull
  | JBool bool
  | JNumber float64
  | JString string
  | JArray "json list"
  | JObject "(string \<times> json) list"

text \<open>Map access: \<open>v, ok := m[k]\<close> and \<open>m[k] = v\<close>.\<close>

definition lookup :: "(string \<times> 'a) list \<Rightarrow> string \<Rightarrow> 'a option" where
  "lookup m k = map_of m k"

fun map_put :: "string \<Rightarrow> 'a \<Rightarrow> (string \<times> 'a) list \<Rightarrow> (string \<times> 'a) list" where
  "map_put k v [] = [(k, v)]"
| "map_put k v ((k', v') # m) =
     (if k = k' then (k, v) # m
      else if k < k' then (k, v) # (k', v') # m
      else (k', v') # map_put k v m)"

text \<open>A map literal, and a map filled from a JSON object: later entries win.\<close>

definition go_map :: "(string \<times> 'a) list \<Rightarrow> (string \<times> 'a) list" where
  "go_map kvs = fold (\<lambda>kv m. map_put (fst kv) (snd kv) m) kvs []"

subsection \<open>UTF-8 (unicode/utf8)\<close>

text \<open>
  \<open>rune_width bs\<close> is the number of bytes of the well-formed UTF-8 encoding at the head
  of \<open>bs\<close>, and 0 when there is none (where \<open>utf8.DecodeRune\<close> returns \<open>RuneError, 1\<close>):
  the table \<open>first\<close> and the accept ranges of the package.
\<close>

definition cont :: "nat \<Rightarrow> bool" where
  "cont b = (128 \<le> b \<and> b \<le> 191)"

fun rune_width :: "nat list \<Rightarrow> nat" where
  "rune_width [] = 0"
| "rune_width (b0 # bs) =
     (if b0 < 128 then 1
      else if 194 \<le> b0 \<and> b0 \<le> 223 then
        (case bs of b1 # _ \<Rightarrow> if cont b1 then 2 else 0 | _ \<Rightarrow> 0)
      else if 224 \<le> b0 \<and> b0 \<le> 239 then
        (case bs of b1 # b2 # _ \<Rightarrow>
           if (if b0 = 224 then 160 \<le> b1 \<and> b1 \<le> 191
               else if b0 = 237 then 128 \<le> b1 \<and> b1 \<le> 159
               else cont b1) \<and> cont b2
           then 3 else 0
         | _ \<Rightarrow> 0)
      else if 240 \<le> b0 \<and> b0 \<le> 244 then
        (case bs of b1 # b2 # b3 # _ \<Rightarrow>
           if (if b0 = 240 then 144 \<le> b1 \<and> b1 \<le> 191
               else if b0 = 244 then 128 \<le> b1 \<and> b1 \<le> 143
               else cont b1) \<and> cont b2 \<and> cont b3
           then 4 else 0
         | _ \<Rightarrow> 0)
      else 0)"

definition bytes :: "string \<Rightarrow> nat list" where
  "bytes s = map of_char s"


text \<open>
  What a string becomes when it is written as a JSON string and read back: the encoder
  writes every byte that starts no well-formed encoding as \<open>\ufffd\<close>, the replacement
  character U+FFFD, whose UTF-8 encoding is the bytes EF BF BD.
\<close>

definition replacement :: string where
  "replacement = [char_of (239::nat), char_of (191::nat), char_of (189::nat)]"

fun toValidUTF8 :: "string \<Rightarrow> string" where
  "toValidUTF8 [] = []"
| "toValidUTF8 (c # cs) =
     (let n = rune_width (bytes (take 4 (c # cs)))
      in if n = 0 then replacement @ toValidUTF8 cs
         else take n (c # cs) @ toValidUTF8 (drop (n - 1) cs))"

subsection \<open>Marshal and Unmarshal\<close>

text \<open>
  \<open>float64(n)\<close> for a 64-bit integer: exact below \<open>2^53\<close>, rounded to the nearest
  value with a 53-bit significand (ties to even) above.
\<close>

function excess_bits :: "int \<Rightarrow> nat" where
  "excess_bits a = (if a < 2 ^ 53 then 0 else Suc (excess_bits (a div 2)))"
  by pat_completeness auto
termination
  by (relation "measure nat") auto

declare excess_bits.simps [simp del]

definition float64_of_int :: "int \<Rightarrow> float64" where
  "float64_of_int n =
     (let a = \<bar>n\<bar>;
          e = excess_bits a;
          q = a div 2 ^ e;
          r = a mod 2 ^ e;
          q' = (if 2 * r > 2 ^ e \<or> (2 * r = 2 ^ e \<and> odd q) then q + 1 else q)
      in of_int (sgn n * q' * 2 ^ e))"

text \<open>
  The library functions whose text formats are outside the model are parameters:
  the lexical layer of \<open>json.Unmarshal\<close> (\<open>None\<close> for bytes that are no JSON text),
  \<open>time.Parse(time.RFC3339, _)\<close> and the text \<open>Time.MarshalJSON\<close> writes, and the
  message of a library error.
\<close>

record lib =
  json_scan :: "string \<Rightarrow> json option"
  time_Parse :: "string \<Rightarrow> time option"
  time_Format :: "time \<Rightarrow> string"
  lib_message :: "error \<Rightarrow> string"

text \<open>\<open>err.Error()\<close>.\<close>

fun Error :: "lib \<Rightarrow> error \<Rightarrow> string" where
  "Error L (Errorf m) = m"
| "Error L (Wrapf m e) = m @ '': '' @ Error L e"
| "Error L e = lib_message L e"

text \<open>
  \<open>json.Marshal\<close>: integers and floats become numbers, a string is written coerced to
  valid UTF-8, a time as its RFC 3339 text, a map with its keys sorted. None of these
  values makes \<open>Marshal\<close> fail.
\<close>

fun Marshal :: "lib \<Rightarrow> gval \<Rightarrow> json" where
  "Marshal L GNil = JNull"
| "Marshal L (GBool b) = JBool b"
| "Marshal L (GFloat64 f) = JNumber f"
| "Marshal L (GInt n) = JNumber (float64_of_int n)"
| "Marshal L (GString s) = JString (toValidUTF8 s)"
| "Marshal L (GTime t) = JString (time_Format L t)"
| "Marshal L (GSlice xs) = JArray (map (Marshal L) xs)"
| "Marshal L (GMap kvs) =
     JObject (map (\<lambda>kv. (toValidUTF8 (fst kv), Marshal L (snd kv))) (sort_key fst kvs))"

text \<open>\<open>json.Unmarshal\<close> into an \<open>interface{}\<close>, from the syntax tree.\<close>

fun Unmarshal :: "json \<Rightarrow> gval" where
  "Unmarshal JNull = GNil"
| "Unmarshal (JBool b) = GBool b"
| "Unmarshal (JNumber f) = GFloat64 f"
| "Unmarshal (JString s) = GString s"
| "Unmarshal (JArray xs) = GSlice (map Unmarshal xs)"
| "Unmarshal (JObject ms) = GMap (go_map (map (\<lambda>kv. (fst kv, Unmarshal (snd kv))) ms))"

text \<open>
  \<open>json.Unmarshal(data, &event)\<close> with \<open>event\<close> a \<open>map[string]interface{}\<close>: an object
  fills the map, \<open>null\<close> leaves it \<open>nil\<close> (every lookup misses), any other JSON value is
  a type error.
\<close>

definition UnmarshalMap :: "lib \<Rightarrow> string \<Rightarrow> error + (string \<times> gval) list" where
  "UnmarshalMap L data =
     (case json_scan L data of
        None \<Rightarrow> Inl JsonSyntaxError
      | Some (JObject ms) \<Rightarrow> Inr (go_map (map (\<lambda>kv. (fst kv, Unmarshal (snd kv))) ms))
      | Some JNull \<Rightarrow> Inr []
      | Some _ \<Rightarrow> Inl JsonTypeError)"

section \<open>The dead-letter queue (internal/dlq)\<close>

text \<open>
  Redis, as far as the queue uses it: the list stored under each key (a key that was
  never pushed to holds the empty list) and whether the server answers. The elements
  are the JSON texts \<open>json.Marshal\<close> produced, each by its syntax tree.
\<close>

record redis =
  lists :: "string \<Rightarrow> json list"
  up :: bool

text \<open>\<open>LPUSH key value\<close> puts the value at the head of the list.\<close>

definition LPush :: "string \<Rightarrow> json \<Rightarrow> redis \<Rightarrow> error + redis" where
  "LPush key v r =
     (if \<not> up r then Inl RedisUnavailable
      else Inr (r\<lparr>lists := (lists r)(key := v # lists r key)\<rparr>))"


text \<open>\<open>extractEventID\<close>: the payload's \<open>eventId\<close> when the payload is a map that holds
  one and it is a string, and \<open>"unknown"\<close> otherwise.\<close>

definition extractEventID :: "gval \<Rightarrow> string" where
  "extractEventID payload =
     (case payload of
        GMap payloadMap \<Rightarrow>
          (case lookup payloadMap ''eventId'' of
             Some (GString eventIDStr) \<Rightarrow> eventIDStr
           | _ \<Rightarrow> ''unknown'')
      | _ \<Rightarrow> ''unknown'')"

text \<open>
  \<open>PushMessage\<close> builds the record, marshals it and pushes it under \<open>dlq:<topic>\<close>;
  \<open>now\<close> is the reading of \<open>time.Now().UTC()\<close>. \<open>json.Marshal\<close> cannot fail on a
  record of these values, so the only error is the push's. The log line has no effect
  on the state.
\<close>

definition dlqMsg :: "time \<Rightarrow> string \<Rightarrow> int \<Rightarrow> int \<Rightarrow> gval \<Rightarrow> string \<Rightarrow> gval" where
  "dlqMsg now topic part offset payload errorMsg =
     GMap (go_map
       [(''eventId'', GString (extractEventID payload)),
        (''topic'', GString topic),
        (''partition'', GInt part),
        (''offset'', GInt offset),
        (''payload'', payload),
        (''error'', GString errorMsg),
        (''failedAt'', GTime now)])"

definition PushMessage ::
  "lib \<Rightarrow> time \<Rightarrow> string \<Rightarrow> int \<Rightarrow> int \<Rightarrow> gval \<Rightarrow> string \<Rightarrow> redis \<Rightarrow> error + redis" where
  "PushMessage L now topic part offset payload errorMsg r =
     (let jsonData = Marshal L (dlqMsg now topic part offset payload errorMsg);
          key = ''dlq:'' @ topic
      in case LPush key jsonData r of
           Inl err \<Rightarrow> Inl (Wrapf ''failed to push to DLQ'' err)
         | Inr r' \<Rightarrow> Inr r')"



section \<open>The producer (cmd/producer, internal/kafka/producer.go)\<close>

text \<open>Type assertions: \<open>v.(string)\<close> and \<open>v.(map[string]interface{})\<close> with their \<open>ok\<close>.\<close>

definition as_string :: "gval option \<Rightarrow> string option" where
  "as_string v = (case v of Some (GString s) \<Rightarrow> Some s | _ \<Rightarrow> None)"

definition as_map :: "gval option \<Rightarrow> (string \<times> gval) list option" where
  "as_map v = (case v of Some (GMap m) \<Rightarrow> Some m | _ \<Rightarrow> None)"

text \<open>The keys of \<open>validTypes\<close>, the map literal in \<open>validateEvent\<close>.\<close>

definition validTypes :: "string list" where
  "validTypes = [''UserCreated'', ''OrderPlaced'', ''PaymentSettled'', ''InventoryAdjusted'']"

text \<open>
  \<open>validateEvent\<close>: \<open>None\<close> is the \<open>nil\<close> error. \<open>validateData\<close> is its last
  statement, the \<open>switch eventType\<close> over the data fields, which has no default case.
\<close>

definition validateData :: "string \<Rightarrow> (string \<times> gval) list \<Rightarrow> error option" where
  "validateData eventType data =
     (if eventType = ''UserCreated'' then
        (if lookup data ''userId'' = None
         then Some (Errorf ''userId is required for UserCreated event'')
         else if lookup data ''name'' = None
         then Some (Errorf ''name is required for UserCreated event'')
         else if lookup data ''email'' = None
         then Some (Errorf ''email is required for UserCreated event'')
         else None)
      else if eventType = ''OrderPlaced'' then
        (if lookup data ''orderId'' = None
         then Some (Errorf ''orderId is required for OrderPlaced event'')
         else if lookup data ''userId'' = None
         then Some (Errorf ''userId is required for OrderPlaced event'')
         else if lookup data ''total'' = None
         then Some (Errorf ''total is required for OrderPlaced event'')
         else None)
      else if eventType = ''PaymentSettled'' then
        (if lookup data ''orderId'' = None
         then Some (Errorf ''orderId is required for PaymentSettled event'')
         else if lookup data ''status'' = None
         then Some (Errorf ''status is required for PaymentSettled event'')
         else if lookup data ''amount'' = None
         then Some (Errorf ''amount is required for PaymentSettled event'')
         else None)
      else if eventType = ''InventoryAdjusted'' then
        (if lookup data ''sku'' = None
         then Some (Errorf ''sku is required for InventoryAdjusted event'')
         else if lookup data ''delta'' = None
         then Some (Errorf ''delta is required for InventoryAdjusted event'')
         else None)
      else None)"

definition validateEvent :: "(string \<times> gval) list \<Rightarrow> error option" where
  "validateEvent event =
     (if lookup event ''eventId'' = None then Some (Errorf ''eventId is required'')
      else if lookup event ''type'' = None then Some (Errorf ''type is required'')
      else if lookup event ''timestamp'' = None then Some (Errorf ''timestamp is required'')
      else if lookup event ''data'' = None then Some (Errorf ''data is required'')
      else (case as_string (lookup event ''type'') of
        None \<Rightarrow> Some (Errorf ''type must be a string'')
      | Some eventType \<Rightarrow>
          (if eventType \<notin> set validTypes
           then Some (Errorf (''invalid event type: '' @ eventType))
           else (case as_map (lookup event ''data'') of
             None \<Rightarrow> Some (Errorf ''data must be an object'')
           | Some data \<Rightarrow> validateData eventType data))))"

text \<open>\<open>extractKey\<close>, on the event as an \<open>interface{}\<close>.\<close>

definition extractKey :: "gval \<Rightarrow> error + string" where
  "extractKey event =
     (case event of
        GMap eventMap \<Rightarrow>
          (case as_string (lookup eventMap ''type'') of
             None \<Rightarrow> Inl (Errorf ''event type is not a string'')
           | Some eventType \<Rightarrow>
               (case as_map (lookup eventMap ''data'') of
                  None \<Rightarrow> Inl (Errorf ''event data is not a map'')
                | Some data \<Rightarrow>
                    if eventType = ''UserCreated'' then
                      (case as_string (lookup data ''userId'') of
                         Some userID \<Rightarrow> Inr userID
                       | None \<Rightarrow> Inl (Errorf ''userId not found in UserCreated event''))
                    else if eventType = ''OrderPlaced'' then
                      (case as_string (lookup data ''orderId'') of
                         Some orderID \<Rightarrow> Inr orderID
                       | None \<Rightarrow> Inl (Errorf ''orderId not found in OrderPlaced event''))
                    else if eventType = ''PaymentSettled'' then
                      (case as_string (lookup data ''orderId'') of
                         Some orderID \<Rightarrow> Inr orderID
                       | None \<Rightarrow> Inl (Errorf ''orderId not found in PaymentSettled event''))
                    else if eventType = ''InventoryAdjusted'' then
                      (case as_string (lookup data ''sku'') of
                         Some sku \<Rightarrow> Inr sku
                       | None \<Rightarrow> Inl (Errorf ''sku not found in InventoryAdjusted event''))
                    else if eventType = ''ProductReview'' then
                      (case as_string (lookup data ''reviewId'') of
                         Some reviewID \<Rightarrow> Inr reviewID
                       | None \<Rightarrow> Inl (Errorf ''reviewId not found in ProductReview event''))
                    else Inl (Errorf (''unknown event type: '' @ eventType))))
      | _ \<Rightarrow> Inl (Errorf ''event is not a map''))"

text \<open>
  \<open>PublishEvent\<close>: the message handed to \<open>WriteMessages\<close>, or the error. \<open>writable\<close>
  is whether the broker takes the message. The message's value is the marshalled event.
\<close>

record produced =
  Key_p :: string
  Value_p :: json
  Time_p :: time

definition PublishEvent :: "lib \<Rightarrow> time \<Rightarrow> bool \<Rightarrow> gval \<Rightarrow> error + produced" where
  "PublishEvent L now writable event =
     (let jsonData = Marshal L event
      in case extractKey event of
           Inl err \<Rightarrow> Inl (Wrapf ''failed to extract key'' err)
         | Inr key \<Rightarrow>
             if \<not> writable then Inl (Wrapf ''failed to write message to Kafka'' KafkaUnavailable)
             else Inr \<lparr>Key_p = key, Value_p = jsonData, Time_p = now\<rparr>)"

section \<open>The consumer (internal/kafka/consumer.go, cmd/consumer)\<close>

record message =
  Topic :: string
  Partition :: int
  Offset :: int
  Key :: string
  Value :: string

text \<open>\<open>ParseEvent\<close>: the decoded envelope, or the error.\<close>

definition ParseEvent :: "lib \<Rightarrow> message \<Rightarrow> error + (string \<times> gval) list" where
  "ParseEvent L msg =
     (case UnmarshalMap L (Value msg) of
        Inl err \<Rightarrow> Inl (Wrapf ''failed to unmarshal event'' err)
      | Inr event \<Rightarrow>
          if lookup event ''eventId'' = None then Inl (Errorf ''eventId field is required'')
          else if lookup event ''type'' = None then Inl (Errorf ''type field is required'')
          else if lookup event ''data'' = None then Inl (Errorf ''data field is required'')
          else Inr event)"

subsection \<open>The reader (kafka-go) and the state of a run\<close>

text \<open>
  Of the \<open>ReaderConfig\<close> that \<open>NewConsumer\<close> fills in, the fields that decide when
  offsets are committed: the topic, the consumer group and the commit interval (in
  nanoseconds).
\<close>

record reader =
  Topic_r :: string
  GroupID :: string
  CommitInterval :: nat

definition NewConsumer :: "string list \<Rightarrow> string \<Rightarrow> string \<Rightarrow> reader" where
  "NewConsumer brokers topic groupID =
     \<lparr>Topic_r = topic, GroupID = groupID, CommitInterval = 1000000000\<rparr>"

text \<open>
  What a run of the consumer acts on: the reader, the messages of the partition the
  reader has not fetched yet, the store, the dead-letter queue, and the sequence of
  the effects so far. An effect is a fetch, a commit of a message's offset handed to the
  reader, a successful upsert for a message, or a dead-letter push for a message with
  whether Redis took it.
\<close>

datatype effect =
    Fetched int
  | Committed int
  | Persisted int
  | DeadLettered int bool

record world =
  rdr :: reader
  broker :: "message list"
  store :: db
  sink :: redis
  effects :: "effect list"

text \<open>
  kafka-go's \<open>Reader\<close>, as its documentation states it. \<open>FetchMessage\<close> returns the next
  message and commits nothing (\<open>None\<close>: nothing to fetch, the call blocks).
  \<open>CommitMessages\<close> commits the offsets of the messages it is given; with a commit
  interval the commit is handed to the reader and flushed at the next tick, and the
  call returns \<open>nil\<close>. \<open>ReadMessage\<close> is \<open>FetchMessage\<close> followed, when the reader is in
  a consumer group, by \<open>CommitMessages\<close> of the fetched message: "If consumer groups
  are used, ReadMessage will automatically commit the offset when called."
\<close>

definition Reader_FetchMessage :: "world \<Rightarrow> (message \<times> world) option" where
  "Reader_FetchMessage w =
     (case broker w of
        [] \<Rightarrow> None
      | m # ms \<Rightarrow> Some (m, w\<lparr>broker := ms, effects := effects w @ [Fetched (Offset m)]\<rparr>))"

definition Reader_CommitMessages :: "message \<Rightarrow> world \<Rightarrow> error option \<times> world" where
  "Reader_CommitMessages m w = (None, w\<lparr>effects := effects w @ [Committed (Offset m)]\<rparr>)"

definition useConsumerGroup :: "reader \<Rightarrow> bool" where
  "useConsumerGroup r = (GroupID r \<noteq> [])"

definition Reader_ReadMessage :: "world \<Rightarrow> (message \<times> world) option" where
  "Reader_ReadMessage w =
     (case Reader_FetchMessage w of
        None \<Rightarrow> None
      | Some (m, w') \<Rightarrow>
          if useConsumerGroup (rdr w') then Some (m, snd (Reader_CommitMessages m w'))
          else Some (m, w'))"

text \<open>The consumer's own methods call the reader's.\<close>

definition ReadMessage :: "world \<Rightarrow> (message \<times> world) option" where
  "ReadMessage w = Reader_ReadMessage w"

definition CommitMessage :: "message \<Rightarrow> world \<Rightarrow> error option \<times> world" where
  "CommitMessage m w = Reader_CommitMessages m w"

subsection \<open>Processing a message\<close>

text \<open>
  \<open>parseTime\<close>, \<open>parseFloat64\<close> and \<open>parseInt\<close>. \<open>now\<close> is the reading of \<open>time.Now()\<close>;
  the readings within one call are taken as one instant. \<open>int(v)\<close> of a \<open>float64\<close>
  truncates towards zero; outside the 64-bit range Go leaves the result to the platform
  (on amd64 it is the smallest integer).
\<close>

definition parseTime :: "lib \<Rightarrow> time \<Rightarrow> gval option \<Rightarrow> time" where
  "parseTime L now v =
     (case v of
        Some (GString str) \<Rightarrow> (case time_Parse L str of Some t \<Rightarrow> t | None \<Rightarrow> now)
      | _ \<Rightarrow> now)"

definition parseFloat64 :: "gval option \<Rightarrow> float64" where
  "parseFloat64 v =
     (case v of
        Some (GFloat64 f) \<Rightarrow> f
      | Some (GInt n) \<Rightarrow> float64_of_int n
      | _ \<Rightarrow> 0)"

definition int_of_float64 :: "float64 \<Rightarrow> int" where
  "int_of_float64 f =
     (let t = (if 0 \<le> f then \<lfloor>f\<rfloor> else \<lceil>f\<rceil>)
      in if - (2 ^ 63) \<le> t \<and> t < 2 ^ 63 then t else - (2 ^ 63))"

definition parseInt :: "gval option \<Rightarrow> int" where
  "parseInt v =
     (case v of
        Some (GInt n) \<Rightarrow> n
      | Some (GFloat64 f) \<Rightarrow> int_of_float64 f
      | _ \<Rightarrow> 0)"

text \<open>
  A call either returns (with its error, \<open>None\<close> for \<open>nil\<close>) or panics: a failed type
  assertion without \<open>ok\<close> panics, and nothing in the consumer recovers.
\<close>

datatype outcome =
    Panicked
  | Returned "error option"

definition upserted :: "db \<Rightarrow> error + db \<Rightarrow> outcome \<times> db" where
  "upserted s res = (case res of Inl err \<Rightarrow> (Returned (Some err), s) | Inr s' \<Rightarrow> (Returned None, s'))"

definition processEventByType ::
  "lib \<Rightarrow> columns \<Rightarrow> time \<Rightarrow> (string \<times> gval) list \<Rightarrow> db \<Rightarrow> outcome \<times> db" where
  "processEventByType L C now event s =
     (case as_string (lookup event ''type'') of
        None \<Rightarrow> (Panicked, s)
      | Some eventType \<Rightarrow>
     (case as_map (lookup event ''data'') of
        None \<Rightarrow> (Panicked, s)
      | Some data \<Rightarrow>
          if eventType = ''UserCreated'' then
            (case (as_string (lookup data ''userId''), as_string (lookup data ''name''),
                   as_string (lookup data ''email'')) of
               (Some userId, Some name, Some email) \<Rightarrow>
                 upserted s (UpsertUser C
                   \<lparr>UserID = userId, Name = name, Email = email,
                    CreatedAt = parseTime L now (lookup data ''createdAt''),
                    UpdatedAt = now\<rparr> s)
             | _ \<Rightarrow> (Panicked, s))
          else if eventType = ''OrderPlaced'' then
            (case (as_string (lookup data ''orderId''), as_string (lookup data ''userId'')) of
               (Some orderId, Some userId) \<Rightarrow>
                 upserted s (UpsertOrder C
                   \<lparr>OrderID = orderId, UserID_o = userId,
                    Total = parseFloat64 (lookup data ''total''), Status = ''placed'',
                    CreatedAt_o = parseTime L now (lookup data ''createdAt''),
                    UpdatedAt_o = now\<rparr> s)
             | _ \<Rightarrow> (Panicked, s))
          else if eventType = ''PaymentSettled'' then
            (case (as_string (lookup data ''orderId''), as_string (lookup data ''status'')) of
               (Some orderId, Some status) \<Rightarrow>
                 upserted s (UpsertPayment C
                   \<lparr>OrderID_p = orderId, Status_p = status,
                    Amount = parseFloat64 (lookup data ''amount''),
                    SettledAt = parseTime L now (lookup data ''settledAt''),
                    UpdatedAt_p = now\<rparr> s)
             | _ \<Rightarrow> (Panicked, s))
          else if eventType = ''InventoryAdjusted'' then
            (case as_string (lookup data ''sku'') of
               Some sku \<Rightarrow>
                 upserted s (UpsertInventory C
                   \<lparr>SKU = sku, Quantity = parseInt (lookup data ''delta''),
                    LastAdjustedAt = parseTime L now (lookup data ''adjustedAt'')\<rparr> s)
             | None \<Rightarrow> (Panicked, s))
          else if eventType = ''ProductReview'' then
            (case (as_string (lookup data ''reviewId''), as_string (lookup data ''productName''),
                   as_string (lookup data ''username''), as_string (lookup data ''remarks'')) of
               (Some reviewId, Some productName, Some username, Some remarks) \<Rightarrow>
                 upserted s (UpsertProductReview C
                   \<lparr>ReviewID = reviewId, ProductName = productName, Username = username,
                    Rating = parseInt (lookup data ''rating''), Remarks = remarks,
                    CreatedAt_r = parseTime L now (lookup data ''createdAt''),
                    UpdatedAt_r = now\<rparr> s)
             | _ \<Rightarrow> (Panicked, s))
          else (Returned (Some (Errorf (''unknown event type: '' @ eventType))), s)))"

text \<open>
  The dead-letter step both error paths of \<open>processMessage\<close> share: push (an error of
  the push is logged and dropped), then commit (an error of the commit is logged and
  dropped), then return the error that led here.
\<close>

definition deadLetter :: "lib \<Rightarrow> time \<Rightarrow> message \<Rightarrow> gval \<Rightarrow> error \<Rightarrow> world \<Rightarrow> outcome \<times> world" where
  "deadLetter L now msg payload err w =
     (let w1 = (case PushMessage L now (Topic msg) (Partition msg) (Offset msg) payload
                       (Error L err) (sink w) of
                  Inl dlqErr \<Rightarrow> w\<lparr>effects := effects w @ [DeadLettered (Offset msg) False]\<rparr>
                | Inr r' \<Rightarrow> w\<lparr>sink := r', effects := effects w @ [DeadLettered (Offset msg) True]\<rparr>);
          w2 = snd (CommitMessage msg w1)
      in (Returned (Some err), w2))"

definition processMessage ::
  "lib \<Rightarrow> columns \<Rightarrow> time \<Rightarrow> message \<Rightarrow> world \<Rightarrow> outcome \<times> world" where
  "processMessage L C now msg w =
     (case ParseEvent L msg of
        Inl err \<Rightarrow> deadLetter L now msg (GString (Value msg)) err w
      | Inr event \<Rightarrow>
          (case as_string (lookup event ''type'') of
             None \<Rightarrow> (Panicked, w)
           | Some eventType \<Rightarrow>
               (case processEventByType L C now event (store w) of
                  (Panicked, s') \<Rightarrow> (Panicked, w\<lparr>store := s'\<rparr>)
                | (Returned (Some err), s') \<Rightarrow> deadLetter L now msg (GMap event) err (w\<lparr>store := s'\<rparr>)
                | (Returned None, s') \<Rightarrow>
                    (let w1 = w\<lparr>store := s', effects := effects w @ [Persisted (Offset msg)]\<rparr>;
                         (commitErr, w2) = CommitMessage msg w1
                     in (Returned commitErr, w2)))))"

text \<open>
  \<open>getEnv\<close>, and the reader \<open>main\<close> builds from the environment: the group is
  \<open>KAFKA_GROUP_ID\<close>, or \<open>consumer-group\<close> when that is unset or empty.
\<close>

definition getEnv :: "(string \<Rightarrow> string) \<Rightarrow> string \<Rightarrow> string \<Rightarrow> string" where
  "getEnv environ key defaultValue =
     (if environ key \<noteq> [] then environ key else defaultValue)"

definition main_consumer :: "(string \<Rightarrow> string) \<Rightarrow> reader" where
  "main_consumer environ =
     NewConsumer [getEnv environ ''KAFKA_BROKERS'' ''localhost:9092'']
       (getEnv environ ''KAFKA_TOPIC'' ''events'')
       (getEnv environ ''KAFKA_GROUP_ID'' ''consumer-group'')"

text \<open>
  One turn of \<open>main\<close>'s loop: read a message, process it. \<open>None\<close>: the read blocks.
\<close>

definition loop_turn ::
  "lib \<Rightarrow> columns \<Rightarrow> time \<Rightarrow> world \<Rightarrow> (outcome \<times> world) option" where
  "loop_turn L C now w =
     (case ReadMessage w of
        None \<Rightarrow> None
      | Some (msg, w') \<Rightarrow> Some (processMessage L C now msg w'))"

text \<open>
  The property of a sequence of effects the commit protocol is about: every commit of
  an offset comes after a terminal outcome for that offset, an upsert that succeeded or
  a dead-letter push. \<open>settled\<close> lists the offsets with an outcome so far.
\<close>

fun commits_follow_outcomes :: "int list \<Rightarrow> effect list \<Rightarrow> bool" where
  "commits_follow_outcomes settled [] = True"
| "commits_follow_outcomes settled (Fetched off # es) = commits_follow_outcomes settled es"
| "commits_follow_outcomes settled (Persisted off # es) =
     commits_follow_outcomes (off # settled) es"
| "commits_follow_outcomes settled (DeadLettered off pushed # es) =
     commits_follow_outcomes (off # settled) es"
| "commits_follow_outcomes settled (Committed off # es) =
     (off \<in> set settled \<and> commits_follow_outcomes settled es)"

section \<open>What the statements below speak about\<close>

text \<open>The rows of a table under a key: \<open>SELECT * FROM users WHERE user_id = k\<close>, and so on.\<close>

definition user_rows :: "columns \<Rightarrow> string \<Rightarrow> db \<Rightarrow> User list" where
  "user_rows C k s = filter (\<lambda>r. collate C (UserID r) = collate C k) (users s)"

definition order_rows :: "columns \<Rightarrow> string \<Rightarrow> db \<Rightarrow> Order list" where
  "order_rows C k s = filter (\<lambda>r. collate C (OrderID r) = collate C k) (orders s)"

definition payment_rows :: "columns \<Rightarrow> string \<Rightarrow> db \<Rightarrow> Payment list" where
  "payment_rows C k s = filter (\<lambda>r. collate C (OrderID_p r) = collate C k) (payments s)"

definition inventory_rows :: "columns \<Rightarrow> string \<Rightarrow> db \<Rightarrow> Inventory list" where
  "inventory_rows C k s = filter (\<lambda>r. collate C (SKU r) = collate C k) (inventory s)"

definition review_rows :: "columns \<Rightarrow> string \<Rightarrow> db \<Rightarrow> ProductReview list" where
  "review_rows C k s = filter (\<lambda>r. collate C (ReviewID r) = collate C k) (product_reviews s)"

text \<open>
  The key of a record is kept by its column: what \<open>VARCHAR(100)\<close> stores for it, if it
  stores it, equals it in T-SQL.
\<close>

definition key_kept :: "columns \<Rightarrow> string \<Rightarrow> bool" where
  "key_kept C k =
     (case to_varchar C 100 k of None \<Rightarrow> True | Some k' \<Rightarrow> collate C k' = collate C k)"

text \<open>Every stored review has a rating from 1 to 5.\<close>

definition ratings_in_range :: "db \<Rightarrow> bool" where
  "ratings_in_range s = list_all (\<lambda>r. 1 \<le> Rating r \<and> Rating r \<le> 5) (product_reviews s)"


text \<open>
  The business identifier of an event type, as the spec lists the partition keys:
  userId / orderId / orderId / sku / reviewId.
\<close>

definition partition_key_field :: "string \<Rightarrow> string option" where
  "partition_key_field eventType =
     (if eventType = ''UserCreated'' then Some ''userId''
      else if eventType = ''OrderPlaced'' then Some ''orderId''
      else if eventType = ''PaymentSettled'' then Some ''orderId''
      else if eventType = ''InventoryAdjusted'' then Some ''sku''
      else if eventType = ''ProductReview'' then Some ''reviewId''
      else None)"

text \<open>The data fields \<open>validateEvent\<close> asks for, by event type.\<close>

definition required_data_fields :: "string \<Rightarrow> string list" where
  "required_data_fields eventType =
     (if eventType = ''UserCreated'' then [''userId'', ''name'', ''email'']
      else if eventType = ''OrderPlaced'' then [''orderId'', ''userId'', ''total'']
      else if eventType = ''PaymentSettled'' then [''orderId'', ''status'', ''amount'']
      else if eventType = ''InventoryAdjusted'' then [''sku'', ''delta'']
      else [])"

text \<open>
  Library parameters for the worked examples: the scan of two sample messages (each
  tree is the syntax tree of the text beside it), the instant of one RFC 3339 text, and
  fixed texts where the text plays no part.
\<close>

definition sample_user_text :: string where
  \<open>sample_user_text =
     ''{"eventId":"e1","type":"UserCreated","data":{"userId":"u1","name":"A","email":"a@x.com","createdAt":"2025-01-01T00:00:00Z"}}''\<close>

definition sample_user_tree :: json where
  "sample_user_tree =
     JObject [(''eventId'', JString ''e1''), (''type'', JString ''UserCreated''),
              (''data'', JObject [(''userId'', JString ''u1''), (''name'', JString ''A''),
                                  (''email'', JString ''a@x.com''),
                                  (''createdAt'', JString ''2025-01-01T00:00:00Z'')])]"

definition sample_review_text :: string where
  \<open>sample_review_text =
     ''{"eventId":"e2","type":"ProductReview","timestamp":"2025-01-01T00:00:00Z","data":{"reviewId":"r1","productName":"P","username":"A","rating":5,"remarks":"ok","createdAt":"2025-01-01T00:00:00Z"}}''\<close>

definition sample_review_tree :: json where
  "sample_review_tree =
     JObject [(''eventId'', JString ''e2''), (''type'', JString ''ProductReview''),
              (''timestamp'', JString ''2025-01-01T00:00:00Z''),
              (''data'', JObject [(''reviewId'', JString ''r1''), (''productName'', JString ''P''),
                                  (''username'', JString ''A''), (''rating'', JNumber 5),
                                  (''remarks'', JString ''ok''),
                                  (''createdAt'', JString ''2025-01-01T00:00:00Z'')])]"

text \<open>The two sample messages, decoded.\<close>

definition sample_user_event :: "(string \<times> gval) list" where
  "sample_user_event =
     [(''data'', GMap [(''createdAt'', GString ''2025-01-01T00:00:00Z''),
                       (''email'', GString ''a@x.com''), (''name'', GString ''A''),
                       (''userId'', GString ''u1'')]),
      (''eventId'', GString ''e1''),
      (''type'', GString ''UserCreated'')]"

definition sample_review_event :: "(string \<times> gval) list" where
  "sample_review_event =
     [(''data'', GMap [(''createdAt'', GString ''2025-01-01T00:00:00Z''),
                       (''productName'', GString ''P''), (''rating'', GFloat64 5),
                       (''remarks'', GString ''ok''), (''reviewId'', GString ''r1''),
                       (''username'', GString ''A'')]),
      (''eventId'', GString ''e2''),
      (''timestamp'', GString ''2025-01-01T00:00:00Z''),
      (''type'', GString ''ProductReview'')]"

definition sample_lib :: lib where
  "sample_lib =
     \<lparr>json_scan = (\<lambda>data. if data = sample_user_text then Some sample_user_tree
                          else if data = sample_review_text then Some sample_review_tree
                          else None),
      time_Parse = (\<lambda>str. if str = ''2025-01-01T00:00:00Z'' then Some 1735689600000000000
                           else None),
      time_Format = (\<lambda>t. ''2025-01-02T00:00:00Z''),
      lib_message = (\<lambda>e. ''library error'')\<rparr>"

text \<open>
  A server for the worked examples. A string is stored as it is when it fits the
  column, blanks at its end not counted and cut off where they do not fit, and is refused
  otherwise; a decimal is rounded to two places, half away from zero, and refused from
  \<open>10 ^ 16\<close> on; an instant is cut to a multiple of 100 nanoseconds; blanks at the end of
  a string play no part in a comparison.
\<close>

definition trim_right :: "string \<Rightarrow> string" where
  "trim_right v = rev (dropWhile (\<lambda>c. c = CHR '' '') (rev v))"

definition round_cents :: "float64 \<Rightarrow> float64 option" where
  "round_cents v =
     (let q = \<lfloor>\<bar>v\<bar> * 100 + 1 / 2\<rfloor>
      in if q < 10 ^ 18 then Some (sgn v * of_int q / 100) else None)"

definition sample_columns :: columns where
  "sample_columns =
     \<lparr>to_varchar = (\<lambda>n v. if length (trim_right v) \<le> n then Some (take n v) else None),
      to_text = (\<lambda>v. Some v),
      to_decimal = round_cents,
      to_datetime2 = (\<lambda>t. Some (t - t mod 100)),
      collate = trim_right\<rparr>"

text \<open>A sample store, and records to upsert into it.\<close>

definition stored_user :: User where
  "stored_user = \<lparr>UserID = ''u1'', Name = ''A'', Email = ''a@x.com'', CreatedAt = 100,
                   UpdatedAt = 100\<rparr>"

definition incoming_user :: User where
  "incoming_user = \<lparr>UserID = ''u1'', Name = ''B'', Email = ''b@x.com'', CreatedAt = 200,
                     UpdatedAt = 300\<rparr>"

definition stored_order :: Order where
  "stored_order = \<lparr>OrderID = ''o1'', UserID_o = ''u1'', Total = 10, Status = ''placed'',
                    CreatedAt_o = 100, UpdatedAt_o = 100\<rparr>"

definition incoming_order :: Order where
  "incoming_order = \<lparr>OrderID = ''o1'', UserID_o = ''u1'', Total = 25, Status = ''placed'',
                      CreatedAt_o = 200, UpdatedAt_o = 300\<rparr>"

definition incoming_payment :: Payment where
  "incoming_payment = \<lparr>OrderID_p = ''o1'', Status_p = ''settled'', Amount = 19999 / 1000,
                        SettledAt = 200, UpdatedAt_p = 300\<rparr>"

definition stored_review :: ProductReview where
  "stored_review = \<lparr>ReviewID = ''r1'', ProductName = ''P'', Username = ''A'', Rating = 4,
                     Remarks = ''fine'', CreatedAt_r = 100, UpdatedAt_r = 100\<rparr>"

definition incoming_review :: ProductReview where
  "incoming_review = \<lparr>ReviewID = ''r1'', ProductName = ''P'', Username = ''A'', Rating = 5,
                       Remarks = ''good'', CreatedAt_r = 200, UpdatedAt_r = 300\<rparr>"

definition stored_item :: Inventory where
  "stored_item = \<lparr>SKU = ''S1'', Quantity = 10, LastAdjustedAt = 100\<rparr>"

definition adjust_plus5 :: Inventory where
  "adjust_plus5 = \<lparr>SKU = ''S1'', Quantity = 5, LastAdjustedAt = 200\<rparr>"

definition adjust_minus2 :: Inventory where
  "adjust_minus2 = \<lparr>SKU = ''S1 '', Quantity = - 2, LastAdjustedAt = 300\<rparr>"

definition sample_db :: db where
  "sample_db = \<lparr>users = [stored_user], orders = [stored_order], payments = [],
                 inventory = [stored_item], product_reviews = [stored_review], online = True\<rparr>"

text \<open>
  Sample messages and a sample run: the user message at offset 0, a message of one
  byte that starts no UTF-8 encoding at offset 1, an empty dead-letter queue, and the
  consumer \<open>main\<close> builds with nothing set in the environment, about to read the user
  message.
\<close>

definition sample_message :: message where
  "sample_message = \<lparr>Topic = ''events'', Partition = 0, Offset = 0, Key = ''u1'',
                      Value = sample_user_text\<rparr>"


definition sample_redis :: redis where
  "sample_redis = \<lparr>lists = (\<lambda>key. []), up = True\<rparr>"

definition sample_world :: world where
  "sample_world = \<lparr>rdr = main_consumer (\<lambda>key. []), broker = [sample_message],
                    store = sample_db, sink = sample_redis, effects = []\<rparr>"

text \<open>An OrderPlaced event whose \<open>orderId\<close> is a number, as \<open>json.Unmarshal\<close> decodes it.\<close>

definition numeric_order_event :: "(string \<times> gval) list" where
  "numeric_order_event =
     [(''data'', GMap [(''orderId'', GFloat64 17), (''total'', GFloat64 10),
                       (''userId'', GString ''u1'')]),
      (''eventId'', GString ''e3''),
      (''timestamp'', GString ''2025-01-01T00:00:00Z''),
      (''type'', GString ''OrderPlaced'')]"

section \<open>Tables as lists of rows\<close>

text \<open>What an update of the rows with a key, and an insert under a new key, do to a list of rows.\<close>

lemma filter_key_absent:
  "k \<notin> key ` set rows \<Longrightarrow> filter (\<lambda>r. key r = k) rows = []"
  by (induction rows) auto

lemma map_update_absent:
  "k \<notin> key ` set rows \<Longrightarrow> map (\<lambda>r. if key r = k then f r else r) rows = rows"
  by (induction rows) auto

lemma filter_key_update:
  assumes "distinct (map key rows)" and "r0 \<in> set rows" and "key r0 = k"
    and "\<And>r. key (f r) = key r"
  shows "filter (\<lambda>r. key r = k) (map (\<lambda>r. if key r = k then f r else r) rows) = [f r0]"
  using assms(1,2)
proof (induction rows)
  case Nil
  then show ?case by simp
next
  case (Cons a rows)
  show ?case
  proof (cases "a = r0")
    case True
    with Cons.prems assms(3) have "k \<notin> key ` set rows" by auto
    then have "filter (\<lambda>r. key r = k) (map (\<lambda>r. if key r = k then f r else r) rows) = []"
      by (simp add: map_update_absent filter_key_absent)
    with True assms(3,4) show ?thesis by simp
  next
    case False
    with Cons.prems have in_rows: "r0 \<in> set rows" by simp
    with Cons.prems assms(3) have "key a \<noteq> k" by auto
    moreover have "filter (\<lambda>r. key r = k) (map (\<lambda>r. if key r = k then f r else r) rows) = [f r0]"
      using Cons.IH in_rows Cons.prems by simp
    ultimately show ?thesis by simp
  qed
qed

lemma map_update_twice:
  assumes "\<And>r. key (f r) = key r" and "\<And>r. f (f r) = f r"
  shows "map (\<lambda>r. if key r = k then f r else r) (map (\<lambda>r. if key r = k then f r else r) rows)
       = map (\<lambda>r. if key r = k then f r else r) rows"
  using assms by (induction rows) auto

lemma key_in_update:
  "(\<And>r. key (f r) = key r) \<Longrightarrow>
   (\<exists>r \<in> set (map (\<lambda>r. if key r = k then f r else r) rows). key r = k') = (\<exists>r \<in> set rows. key r = k')"
  by (induction rows) auto

lemma find_key_distinct:
  "distinct (map key rows) \<Longrightarrow> r0 \<in> set rows \<Longrightarrow> key r0 = k \<Longrightarrow>
   find (\<lambda>r. key r = k) rows = Some r0"
  by (induction rows) (auto simp: image_iff)

lemma find_key_absent:
  "k \<notin> key ` set rows \<Longrightarrow> find (\<lambda>r. key r = k) rows = None"
  by (induction rows) auto

lemma map_key_update:
  "(\<And>r. key (f r) = key r) \<Longrightarrow> map key (map (\<lambda>r. if key r = k then f r else r) rows) = map key rows"
  by (induction rows) auto

section \<open>Each upsert, by what it does to its table\<close>

lemma user_values_Some:
  assumes "user_values C u = Some row"
  shows "to_varchar C 100 (UserID u) = Some (UserID row)"
    and "\<exists>v. user_set C u = Some v \<and> Name v = Name row \<and> Email v = Email row \<and>
           UpdatedAt v = UpdatedAt row"
  using assms by (auto simp: user_values_def user_set_def split: option.splits)

lemma UpsertUser_cases:
  assumes "UpsertUser C u s = Inr s'"
  shows "online s \<and>
     (if \<exists>r \<in> set (users s). collate C (UserID r) = collate C (UserID u)
      then \<exists>v. user_set C u = Some v \<and>
        s' = s\<lparr>users := map (\<lambda>r. if collate C (UserID r) = collate C (UserID u)
          then r\<lparr>Name := Name v, Email := Email v, UpdatedAt := UpdatedAt v\<rparr> else r) (users s)\<rparr>
      else \<exists>row. user_values C u = Some row \<and>
        \<not> (\<exists>r \<in> set (users s). collate C (UserID r) = collate C (UserID row)) \<and>
        s' = s\<lparr>users := users s @ [row]\<rparr>)"
  using assms unfolding UpsertUser_def by (auto split: if_splits option.splits)

lemma UpsertUser_present:
  assumes "distinct (map (\<lambda>r. collate C (UserID r)) (users s))" "r0 \<in> set (users s)"
    "collate C (UserID r0) = collate C (UserID u)" and "UpsertUser C u s = Inr s'"
  shows "\<exists>v. user_set C u = Some v \<and>
           user_rows C (UserID u) s' = [r0\<lparr>Name := Name v, Email := Email v, UpdatedAt := UpdatedAt v\<rparr>]
         \<and> UpsertUser C u s' = Inr s'"
proof -
  from assms(2,3) have ex: "\<exists>r \<in> set (users s). collate C (UserID r) = collate C (UserID u)" by auto
  with UpsertUser_cases[OF assms(4)] obtain v where v: "user_set C u = Some v"
    and s': "s' = s\<lparr>users := map (\<lambda>r. if collate C (UserID r) = collate C (UserID u)
          then r\<lparr>Name := Name v, Email := Email v, UpdatedAt := UpdatedAt v\<rparr> else r) (users s)\<rparr>"
    and on: "online s" by auto
  let ?key = "\<lambda>r. collate C (UserID r)"
  let ?f = "\<lambda>r. r\<lparr>Name := Name v, Email := Email v, UpdatedAt := UpdatedAt v\<rparr>"
  let ?g = "\<lambda>r. if ?key r = collate C (UserID u) then ?f r else r"
  have key: "\<And>r. ?key (?f r) = ?key r" and idem: "\<And>r. ?f (?f r) = ?f r" by simp_all
  have rows: "filter (\<lambda>r. ?key r = collate C (UserID u)) (map ?g (users s)) = [?f r0]"
    using assms(1,2,3) key by (rule filter_key_update)
  have ex': "\<exists>r \<in> set (map ?g (users s)). ?key r = collate C (UserID u)"
    using ex key_in_update[where key = ?key and f = ?f and k = "collate C (UserID u)"
        and k' = "collate C (UserID u)" and rows = "users s", OF key]
    by blast
  have twice: "map ?g (map ?g (users s)) = map ?g (users s)"
    using key idem by (rule map_update_twice)
  have "UpsertUser C u s' = Inr s'"
    unfolding UpsertUser_def s' using on ex' twice v by simp
  moreover have "user_rows C (UserID u) s' = [?f r0]"
    unfolding user_rows_def s' using rows by simp
  ultimately show ?thesis using v by simp
qed

lemma UpsertUser_absent:
  assumes "collate C (UserID u) \<notin> (\<lambda>r. collate C (UserID r)) ` set (users s)"
    and "key_kept C (UserID u)" and "UpsertUser C u s = Inr s'"
  shows "\<exists>row. user_values C u = Some row \<and> user_rows C (UserID u) s' = [row] \<and>
           UpsertUser C u s' = Inr s'"
proof -
  from assms(1) have nex: "\<not> (\<exists>r \<in> set (users s). collate C (UserID r) = collate C (UserID u))"
    by (auto simp: image_iff)
  with UpsertUser_cases[OF assms(3)] obtain row where row: "user_values C u = Some row"
    and s': "s' = s\<lparr>users := users s @ [row]\<rparr>" and on: "online s" by auto
  note vs = user_values_Some[OF row]
  from assms(2) vs(1) have k: "collate C (UserID row) = collate C (UserID u)"
    by (simp add: key_kept_def)
  from vs(2) obtain v where v: "user_set C u = Some v" and veq: "Name v = Name row"
    "Email v = Email row" "UpdatedAt v = UpdatedAt row" by auto
  let ?key = "\<lambda>r. collate C (UserID r)"
  let ?f = "\<lambda>r. r\<lparr>Name := Name v, Email := Email v, UpdatedAt := UpdatedAt v\<rparr>"
  let ?g = "\<lambda>r. if ?key r = collate C (UserID u) then ?f r else r"
  have same: "map ?g (users s) = users s"
    using assms(1) by (rule map_update_absent)
  have grow: "?g row = row"
    using k veq by simp
  have again: "map ?g (users s @ [row]) = users s @ [row]"
    using same grow by simp
  have none: "filter (\<lambda>r. ?key r = collate C (UserID u)) (users s) = []"
    using assms(1) by (rule filter_key_absent)
  have "user_rows C (UserID u) s' = [row]"
    unfolding user_rows_def s' using none k by simp
  moreover have "UpsertUser C u s' = Inr s'"
    unfolding UpsertUser_def s' using on k v again by simp
  ultimately show ?thesis using row by simp
qed

lemma UpsertUser_twice:
  assumes "distinct (map (\<lambda>r. collate C (UserID r)) (users s))" and "key_kept C (UserID usr)"
    and "UpsertUser C usr s = Inr s'"
  shows "UpsertUser C usr s' = Inr s' \<and>
         (case find (\<lambda>r. collate C (UserID r) = collate C (UserID usr)) (users s) of
            None \<Rightarrow> \<exists>row. user_values C usr = Some row \<and> user_rows C (UserID usr) s' = [row]
          | Some r0 \<Rightarrow> \<exists>v. user_set C usr = Some v \<and>
              user_rows C (UserID usr) s' =
                [r0\<lparr>Name := Name v, Email := Email v, UpdatedAt := UpdatedAt v\<rparr>])"
proof (cases "collate C (UserID usr) \<in> (\<lambda>r. collate C (UserID r)) ` set (users s)")
  case True
  then obtain r0 where r0: "r0 \<in> set (users s)" "collate C (UserID r0) = collate C (UserID usr)"
    by auto
  have found: "find (\<lambda>r. collate C (UserID r) = collate C (UserID usr)) (users s) = Some r0"
    using assms(1) r0 by (rule find_key_distinct)
  from UpsertUser_present[OF assms(1) r0 assms(3)] found show ?thesis by auto
next
  case False
  then have "find (\<lambda>r. collate C (UserID r) = collate C (UserID usr)) (users s) = None"
    by (rule find_key_absent)
  with UpsertUser_absent[OF False assms(2,3)] show ?thesis by auto
qed

lemma UpsertUser_succeeds:
  assumes "online s" "key_kept C (UserID u)" "user_values C u = Some row"
  shows "\<exists>s'. UpsertUser C u s = Inr s'"
proof (cases "\<exists>r \<in> set (users s). collate C (UserID r) = collate C (UserID u)")
  case True
  with assms(1) user_values_Some(2)[OF assms(3)] show ?thesis
    by (auto simp add: UpsertUser_def)
next
  case False
  from assms(2) user_values_Some(1)[OF assms(3)]
  have "collate C (UserID row) = collate C (UserID u)" by (simp add: key_kept_def)
  with False assms(1,3) show ?thesis
    by (simp add: UpsertUser_def)
qed

lemma order_values_Some:
  assumes "order_values C ord = Some row"
  shows "to_varchar C 100 (OrderID ord) = Some (OrderID row)"
    and "\<exists>v. order_set C ord = Some v \<and> UserID_o v = UserID_o row \<and> Total v = Total row \<and> Status v = Status row \<and> UpdatedAt_o v = UpdatedAt_o row"
  using assms by (auto simp: order_values_def order_set_def split: option.splits)

lemma UpsertOrder_cases:
  assumes "UpsertOrder C ord s = Inr s'"
  shows "online s \<and>
     (if \<exists>r \<in> set (orders s). collate C (OrderID r) = collate C (OrderID ord)
      then \<exists>v. order_set C ord = Some v \<and> user_known C s (UserID_o v) \<and>
        s' = s\<lparr>orders := map (\<lambda>r. if collate C (OrderID r) = collate C (OrderID ord)
          then r\<lparr>UserID_o := UserID_o v, Total := Total v, Status := Status v, UpdatedAt_o := UpdatedAt_o v\<rparr> else r) (orders s)\<rparr>
      else \<exists>row. order_values C ord = Some row \<and>
        \<not> (\<exists>r \<in> set (orders s). collate C (OrderID r) = collate C (OrderID row)) \<and>
        user_known C s (UserID_o row) \<and>
        s' = s\<lparr>orders := orders s @ [row]\<rparr>)"
  using assms unfolding UpsertOrder_def by (auto split: if_splits option.splits)

lemma UpsertOrder_present:
  assumes "distinct (map (\<lambda>r. collate C (OrderID r)) (orders s))" "r0 \<in> set (orders s)"
    "collate C (OrderID r0) = collate C (OrderID ord)" and "UpsertOrder C ord s = Inr s'"
  shows "\<exists>v. order_set C ord = Some v \<and>
           order_rows C (OrderID ord) s' = [r0\<lparr>UserID_o := UserID_o v, Total := Total v, Status := Status v, UpdatedAt_o := UpdatedAt_o v\<rparr>]
         \<and> UpsertOrder C ord s' = Inr s'"
proof -
  from assms(2,3) have ex: "\<exists>r \<in> set (orders s). collate C (OrderID r) = collate C (OrderID ord)" by auto
  with UpsertOrder_cases[OF assms(4)] obtain v where v: "order_set C ord = Some v"
    and s': "s' = s\<lparr>orders := map (\<lambda>r. if collate C (OrderID r) = collate C (OrderID ord)
          then r\<lparr>UserID_o := UserID_o v, Total := Total v, Status := Status v, UpdatedAt_o := UpdatedAt_o v\<rparr> else r) (orders s)\<rparr>"
    and on: "online s" and fk: "user_known C s (UserID_o v)" by auto
  let ?key = "\<lambda>r. collate C (OrderID r)"
  let ?f = "\<lambda>r. r\<lparr>UserID_o := UserID_o v, Total := Total v, Status := Status v, UpdatedAt_o := UpdatedAt_o v\<rparr>"
  let ?g = "\<lambda>r. if ?key r = collate C (OrderID ord) then ?f r else r"
  have key: "\<And>r. ?key (?f r) = ?key r" and idem: "\<And>r. ?f (?f r) = ?f r" by simp_all
  have rows: "filter (\<lambda>r. ?key r = collate C (OrderID ord)) (map ?g (orders s)) = [?f r0]"
    using assms(1,2,3) key by (rule filter_key_update)
  have ex': "\<exists>r \<in> set (map ?g (orders s)). ?key r = collate C (OrderID ord)"
    using ex key_in_update[where key = ?key and f = ?f and k = "collate C (OrderID ord)"
        and k' = "collate C (OrderID ord)" and rows = "orders s", OF key]
    by blast
  have twice: "map ?g (map ?g (orders s)) = map ?g (orders s)"
    using key idem by (rule map_update_twice)
  have "UpsertOrder C ord s' = Inr s'"
    unfolding UpsertOrder_def s' using on ex' twice v fk by (simp add: user_known_def)
  moreover have "order_rows C (OrderID ord) s' = [?f r0]"
    unfolding order_rows_def s' using rows by simp
  ultimately show ?thesis using v by simp
qed

lemma UpsertOrder_absent:
  assumes "collate C (OrderID ord) \<notin> (\<lambda>r. collate C (OrderID r)) ` set (orders s)"
    and "key_kept C (OrderID ord)" and "UpsertOrder C ord s = Inr s'"
  shows "\<exists>row. order_values C ord = Some row \<and> order_rows C (OrderID ord) s' = [row] \<and>
           UpsertOrder C ord s' = Inr s'"
proof -
  from assms(1) have nex: "\<not> (\<exists>r \<in> set (orders s). collate C (OrderID r) = collate C (OrderID ord))"
    by (auto simp: image_iff)
  with UpsertOrder_cases[OF assms(3)] obtain row where row: "order_values C ord = Some row"
    and s': "s' = s\<lparr>orders := orders s @ [row]\<rparr>" and on: "online s"
    and fk: "user_known C s (UserID_o row)" by auto
  note vs = order_values_Some[OF row]
  from assms(2) vs(1) have k: "collate C (OrderID row) = collate C (OrderID ord)"
    by (simp add: key_kept_def)
  from vs(2) obtain v where v: "order_set C ord = Some v" and veq: "UserID_o v = UserID_o row" "Total v = Total row" "Status v = Status row" "UpdatedAt_o v = UpdatedAt_o row" by auto
  let ?key = "\<lambda>r. collate C (OrderID r)"
  let ?f = "\<lambda>r. r\<lparr>UserID_o := UserID_o v, Total := Total v, Status := Status v, UpdatedAt_o := UpdatedAt_o v\<rparr>"
  let ?g = "\<lambda>r. if ?key r = collate C (OrderID ord) then ?f r else r"
  have same: "map ?g (orders s) = orders s"
    using assms(1) by (rule map_update_absent)
  have grow: "?g row = row"
    using k veq by simp
  have again: "map ?g (orders s @ [row]) = orders s @ [row]"
    using same grow by simp
  have none: "filter (\<lambda>r. ?key r = collate C (OrderID ord)) (orders s) = []"
    using assms(1) by (rule filter_key_absent)
  have "order_rows C (OrderID ord) s' = [row]"
    unfolding order_rows_def s' using none k by simp
  moreover have "UpsertOrder C ord s' = Inr s'"
    unfolding UpsertOrder_def s' using on k v again fk veq by (simp add: user_known_def)
  ultimately show ?thesis using row by simp
qed

lemma UpsertOrder_twice:
  assumes "distinct (map (\<lambda>r. collate C (OrderID r)) (orders s))" and "key_kept C (OrderID ord)"
    and "UpsertOrder C ord s = Inr s'"
  shows "UpsertOrder C ord s' = Inr s' \<and>
         (case find (\<lambda>r. collate C (OrderID r) = collate C (OrderID ord)) (orders s) of
            None \<Rightarrow> \<exists>row. order_values C ord = Some row \<and> order_rows C (OrderID ord) s' = [row]
          | Some r0 \<Rightarrow> \<exists>v. order_set C ord = Some v \<and>
              order_rows C (OrderID ord) s' =
                [r0\<lparr>UserID_o := UserID_o v, Total := Total v, Status := Status v, UpdatedAt_o := UpdatedAt_o v\<rparr>])"
proof (cases "collate C (OrderID ord) \<in> (\<lambda>r. collate C (OrderID r)) ` set (orders s)")
  case True
  then obtain r0 where r0: "r0 \<in> set (orders s)" "collate C (OrderID r0) = collate C (OrderID ord)"
    by auto
  have found: "find (\<lambda>r. collate C (OrderID r) = collate C (OrderID ord)) (orders s) = Some r0"
    using assms(1) r0 by (rule find_key_distinct)
  from UpsertOrder_present[OF assms(1) r0 assms(3)] found show ?thesis by auto
next
  case False
  then have "find (\<lambda>r. collate C (OrderID r) = collate C (OrderID ord)) (orders s) = None"
    by (rule find_key_absent)
  with UpsertOrder_absent[OF False assms(2,3)] show ?thesis by auto
qed

lemma UpsertOrder_succeeds:
  assumes "online s" "key_kept C (OrderID ord)" "order_values C ord = Some row"
    "user_known C s (UserID_o row)"
  shows "\<exists>s'. UpsertOrder C ord s = Inr s'"
proof (cases "\<exists>r \<in> set (orders s). collate C (OrderID r) = collate C (OrderID ord)")
  case True
  with assms(1,4) order_values_Some(2)[OF assms(3)] show ?thesis
    by (auto simp add: UpsertOrder_def)
next
  case False
  from assms(2) order_values_Some(1)[OF assms(3)]
  have "collate C (OrderID row) = collate C (OrderID ord)" by (simp add: key_kept_def)
  with False assms(1,3,4) show ?thesis
    by (simp add: UpsertOrder_def)
qed

lemma payment_values_Some:
  assumes "payment_values C pay = Some row"
  shows "to_varchar C 100 (OrderID_p pay) = Some (OrderID_p row)"
    and "\<exists>v. payment_set C pay = Some v \<and> Status_p v = Status_p row \<and> Amount v = Amount row \<and> SettledAt v = SettledAt row \<and> UpdatedAt_p v = UpdatedAt_p row"
  using assms by (auto simp: payment_values_def payment_set_def split: option.splits)

lemma UpsertPayment_cases:
  assumes "UpsertPayment C pay s = Inr s'"
  shows "online s \<and>
     (if \<exists>r \<in> set (payments s). collate C (OrderID_p r) = collate C (OrderID_p pay)
      then \<exists>v. payment_set C pay = Some v \<and>
        s' = s\<lparr>payments := map (\<lambda>r. if collate C (OrderID_p r) = collate C (OrderID_p pay)
          then r\<lparr>Status_p := Status_p v, Amount := Amount v, SettledAt := SettledAt v, UpdatedAt_p := UpdatedAt_p v\<rparr> else r) (payments s)\<rparr>
      else \<exists>row. payment_values C pay = Some row \<and>
        \<not> (\<exists>r \<in> set (payments s). collate C (OrderID_p r) = collate C (OrderID_p row)) \<and>
        s' = s\<lparr>payments := payments s @ [row]\<rparr>)"
  using assms unfolding UpsertPayment_def by (auto split: if_splits option.splits)

lemma UpsertPayment_present:
  assumes "distinct (map (\<lambda>r. collate C (OrderID_p r)) (payments s))" "r0 \<in> set (payments s)"
    "collate C (OrderID_p r0) = collate C (OrderID_p pay)" and "UpsertPayment C pay s = Inr s'"
  shows "\<exists>v. payment_set C pay = Some v \<and>
           payment_rows C (OrderID_p pay) s' = [r0\<lparr>Status_p := Status_p v, Amount := Amount v, SettledAt := SettledAt v, UpdatedAt_p := UpdatedAt_p v\<rparr>]
         \<and> UpsertPayment C pay s' = Inr s'"
proof -
  from assms(2,3) have ex: "\<exists>r \<in> set (payments s). collate C (OrderID_p r) = collate C (OrderID_p pay)" by auto
  with UpsertPayment_cases[OF assms(4)] obtain v where v: "payment_set C pay = Some v"
    and s': "s' = s\<lparr>payments := map (\<lambda>r. if collate C (OrderID_p r) = collate C (OrderID_p pay)
          then r\<lparr>Status_p := Status_p v, Amount := Amount v, SettledAt := SettledAt v, UpdatedAt_p := UpdatedAt_p v\<rparr> else r) (payments s)\<rparr>"
    and on: "online s" by auto
  let ?key = "\<lambda>r. collate C (OrderID_p r)"
  let ?f = "\<lambda>r. r\<lparr>Status_p := Status_p v, Amount := Amount v, SettledAt := SettledAt v, UpdatedAt_p := UpdatedAt_p v\<rparr>"
  let ?g = "\<lambda>r. if ?key r = collate C (OrderID_p pay) then ?f r else r"
  have key: "\<And>r. ?key (?f r) = ?key r" and idem: "\<And>r. ?f (?f r) = ?f r" by simp_all
  have rows: "filter (\<lambda>r. ?key r = collate C (OrderID_p pay)) (map ?g (payments s)) = [?f r0]"
    using assms(1,2,3) key by (rule filter_key_update)
  have ex': "\<exists>r \<in> set (map ?g (payments s)). ?key r = collate C (OrderID_p pay)"
    using ex key_in_update[where key = ?key and f = ?f and k = "collate C (OrderID_p pay)"
        and k' = "collate C (OrderID_p pay)" and rows = "payments s", OF key]
    by blast
  have twice: "map ?g (map ?g (payments s)) = map ?g (payments s)"
    using key idem by (rule map_update_twice)
  have "UpsertPayment C pay s' = Inr s'"
    unfolding UpsertPayment_def s' using on ex' twice v by simp
  moreover have "payment_rows C (OrderID_p pay) s' = [?f r0]"
    unfolding payment_rows_def s' using rows by simp
  ultimately show ?thesis using v by simp
qed

lemma UpsertPayment_absent:
  assumes "collate C (OrderID_p pay) \<notin> (\<lambda>r. collate C (OrderID_p r)) ` set (payments s)"
    and "key_kept C (OrderID_p pay)" and "UpsertPayment C pay s = Inr s'"
  shows "\<exists>row. payment_values C pay = Some row \<and> payment_rows C (OrderID_p pay) s' = [row] \<and>
           UpsertPayment C pay s' = Inr s'"
proof -
  from assms(1) have nex: "\<not> (\<exists>r \<in> set (payments s). collate C (OrderID_p r) = collate C (OrderID_p pay))"
    by (auto simp: image_iff)
  with UpsertPayment_cases[OF assms(3)] obtain row where row: "payment_values C pay = Some row"
    and s': "s' = s\<lparr>payments := payments s @ [row]\<rparr>" and on: "online s" by auto
  note vs = payment_values_Some[OF row]
  from assms(2) vs(1) have k: "collate C (OrderID_p row) = collate C (OrderID_p pay)"
    by (simp add: key_kept_def)
  from vs(2) obtain v where v: "payment_set C pay = Some v" and veq: "Status_p v = Status_p row" "Amount v = Amount row" "SettledAt v = SettledAt row" "UpdatedAt_p v = UpdatedAt_p row" by auto
  let ?key = "\<lambda>r. collate C (OrderID_p r)"
  let ?f = "\<lambda>r. r\<lparr>Status_p := Status_p v, Amount := Amount v, SettledAt := SettledAt v, UpdatedAt_p := UpdatedAt_p v\<rparr>"
  let ?g = "\<lambda>r. if ?key r = collate C (OrderID_p pay) then ?f r else r"
  have same: "map ?g (payments s) = payments s"
    using assms(1) by (rule map_update_absent)
  have grow: "?g row = row"
    using k veq by simp
  have again: "map ?g (payments s @ [row]) = payments s @ [row]"
    using same grow by simp
  have none: "filter (\<lambda>r. ?key r = collate C (OrderID_p pay)) (payments s) = []"
    using assms(1) by (rule filter_key_absent)
  have "payment_rows C (OrderID_p pay) s' = [row]"
    unfolding payment_rows_def s' using none k by simp
  moreover have "UpsertPayment C pay s' = Inr s'"
    unfolding UpsertPayment_def s' using on k v again by simp
  ultimately show ?thesis using row by simp
qed

lemma UpsertPayment_twice:
  assumes "distinct (map (\<lambda>r. collate C (OrderID_p r)) (payments s))" and "key_kept C (OrderID_p pay)"
    and "UpsertPayment C pay s = Inr s'"
  shows "UpsertPayment C pay s' = Inr s' \<and>
         (case find (\<lambda>r. collate C (OrderID_p r) = collate C (OrderID_p pay)) (payments s) of
            None \<Rightarrow> \<exists>row. payment_values C pay = Some row \<and> payment_rows C (OrderID_p pay) s' = [row]
          | Some r0 \<Rightarrow> \<exists>v. payment_set C pay = Some v \<and>
              payment_rows C (OrderID_p pay) s' =
                [r0\<lparr>Status_p := Status_p v, Amount := Amount v, SettledAt := SettledAt v, UpdatedAt_p := UpdatedAt_p v\<rparr>])"
proof (cases "collate C (OrderID_p pay) \<in> (\<lambda>r. collate C (OrderID_p r)) ` set (payments s)")
  case True
  then obtain r0 where r0: "r0 \<in> set (payments s)" "collate C (OrderID_p r0) = collate C (OrderID_p pay)"
    by auto
  have found: "find (\<lambda>r. collate C (OrderID_p r) = collate C (OrderID_p pay)) (payments s) = Some r0"
    using assms(1) r0 by (rule find_key_distinct)
  from UpsertPayment_present[OF assms(1) r0 assms(3)] found show ?thesis by auto
next
  case False
  then have "find (\<lambda>r. collate C (OrderID_p r) = collate C (OrderID_p pay)) (payments s) = None"
    by (rule find_key_absent)
  with UpsertPayment_absent[OF False assms(2,3)] show ?thesis by auto
qed

lemma UpsertPayment_succeeds:
  assumes "online s" "key_kept C (OrderID_p pay)" "payment_values C pay = Some row"
  shows "\<exists>s'. UpsertPayment C pay s = Inr s'"
proof (cases "\<exists>r \<in> set (payments s). collate C (OrderID_p r) = collate C (OrderID_p pay)")
  case True
  with assms(1) payment_values_Some(2)[OF assms(3)] show ?thesis
    by (auto simp add: UpsertPayment_def)
next
  case False
  from assms(2) payment_values_Some(1)[OF assms(3)]
  have "collate C (OrderID_p row) = collate C (OrderID_p pay)" by (simp add: key_kept_def)
  with False assms(1,3) show ?thesis
    by (simp add: UpsertPayment_def)
qed

lemma review_values_Some:
  assumes "review_values C rvw = Some row"
  shows "to_varchar C 100 (ReviewID rvw) = Some (ReviewID row)"
    and "Rating row = Rating rvw"
    and "\<exists>v. review_set C rvw = Some v \<and> ProductName v = ProductName row \<and> Username v = Username row \<and> Rating v = Rating row \<and> Remarks v = Remarks row \<and> UpdatedAt_r v = UpdatedAt_r row"
  using assms by (auto simp: review_values_def review_set_def split: option.splits)

lemma UpsertProductReview_cases:
  assumes "UpsertProductReview C rvw s = Inr s'"
  shows "online s \<and> sql_int (Rating rvw) \<and> 1 \<le> Rating rvw \<and> Rating rvw \<le> 5 \<and>
     (if \<exists>r \<in> set (product_reviews s). collate C (ReviewID r) = collate C (ReviewID rvw)
      then \<exists>v. review_set C rvw = Some v \<and>
        s' = s\<lparr>product_reviews := map (\<lambda>r. if collate C (ReviewID r) = collate C (ReviewID rvw)
          then r\<lparr>ProductName := ProductName v, Username := Username v, Rating := Rating v, Remarks := Remarks v, UpdatedAt_r := UpdatedAt_r v\<rparr> else r) (product_reviews s)\<rparr>
      else \<exists>row. review_values C rvw = Some row \<and>
        \<not> (\<exists>r \<in> set (product_reviews s). collate C (ReviewID r) = collate C (ReviewID row)) \<and>
        s' = s\<lparr>product_reviews := product_reviews s @ [row]\<rparr>)"
  using assms unfolding UpsertProductReview_def by (auto split: if_splits option.splits)

lemma UpsertProductReview_present:
  assumes "distinct (map (\<lambda>r. collate C (ReviewID r)) (product_reviews s))" "r0 \<in> set (product_reviews s)"
    "collate C (ReviewID r0) = collate C (ReviewID rvw)" and "UpsertProductReview C rvw s = Inr s'"
  shows "\<exists>v. review_set C rvw = Some v \<and>
           review_rows C (ReviewID rvw) s' = [r0\<lparr>ProductName := ProductName v, Username := Username v, Rating := Rating v, Remarks := Remarks v, UpdatedAt_r := UpdatedAt_r v\<rparr>]
         \<and> UpsertProductReview C rvw s' = Inr s'"
proof -
  from assms(2,3) have ex: "\<exists>r \<in> set (product_reviews s). collate C (ReviewID r) = collate C (ReviewID rvw)" by auto
  with UpsertProductReview_cases[OF assms(4)] obtain v where v: "review_set C rvw = Some v"
    and s': "s' = s\<lparr>product_reviews := map (\<lambda>r. if collate C (ReviewID r) = collate C (ReviewID rvw)
          then r\<lparr>ProductName := ProductName v, Username := Username v, Rating := Rating v, Remarks := Remarks v, UpdatedAt_r := UpdatedAt_r v\<rparr> else r) (product_reviews s)\<rparr>"
    and on: "online s" and chk: "sql_int (Rating rvw)" "1 \<le> Rating rvw" "Rating rvw \<le> 5"
    by auto
  let ?key = "\<lambda>r. collate C (ReviewID r)"
  let ?f = "\<lambda>r. r\<lparr>ProductName := ProductName v, Username := Username v, Rating := Rating v, Remarks := Remarks v, UpdatedAt_r := UpdatedAt_r v\<rparr>"
  let ?g = "\<lambda>r. if ?key r = collate C (ReviewID rvw) then ?f r else r"
  have key: "\<And>r. ?key (?f r) = ?key r" and idem: "\<And>r. ?f (?f r) = ?f r" by simp_all
  have rows: "filter (\<lambda>r. ?key r = collate C (ReviewID rvw)) (map ?g (product_reviews s)) = [?f r0]"
    using assms(1,2,3) key by (rule filter_key_update)
  have ex': "\<exists>r \<in> set (map ?g (product_reviews s)). ?key r = collate C (ReviewID rvw)"
    using ex key_in_update[where key = ?key and f = ?f and k = "collate C (ReviewID rvw)"
        and k' = "collate C (ReviewID rvw)" and rows = "product_reviews s", OF key]
    by blast
  have twice: "map ?g (map ?g (product_reviews s)) = map ?g (product_reviews s)"
    using key idem by (rule map_update_twice)
  have "UpsertProductReview C rvw s' = Inr s'"
    unfolding UpsertProductReview_def s' using on chk ex' twice v by simp
  moreover have "review_rows C (ReviewID rvw) s' = [?f r0]"
    unfolding review_rows_def s' using rows by simp
  ultimately show ?thesis using v by simp
qed

lemma UpsertProductReview_absent:
  assumes "collate C (ReviewID rvw) \<notin> (\<lambda>r. collate C (ReviewID r)) ` set (product_reviews s)"
    and "key_kept C (ReviewID rvw)" and "UpsertProductReview C rvw s = Inr s'"
  shows "\<exists>row. review_values C rvw = Some row \<and> review_rows C (ReviewID rvw) s' = [row] \<and>
           UpsertProductReview C rvw s' = Inr s'"
proof -
  from assms(1) have nex: "\<not> (\<exists>r \<in> set (product_reviews s). collate C (ReviewID r) = collate C (ReviewID rvw))"
    by (auto simp: image_iff)
  with UpsertProductReview_cases[OF assms(3)] obtain row where row: "review_values C rvw = Some row"
    and s': "s' = s\<lparr>product_reviews := product_reviews s @ [row]\<rparr>" and on: "online s"
    and chk: "sql_int (Rating rvw)" "1 \<le> Rating rvw" "Rating rvw \<le> 5" by auto
  note vs = review_values_Some[OF row]
  from assms(2) vs(1) have k: "collate C (ReviewID row) = collate C (ReviewID rvw)"
    by (simp add: key_kept_def)
  from vs(3) obtain v where v: "review_set C rvw = Some v" and veq: "ProductName v = ProductName row" "Username v = Username row" "Rating v = Rating row" "Remarks v = Remarks row" "UpdatedAt_r v = UpdatedAt_r row" by auto
  let ?key = "\<lambda>r. collate C (ReviewID r)"
  let ?f = "\<lambda>r. r\<lparr>ProductName := ProductName v, Username := Username v, Rating := Rating v, Remarks := Remarks v, UpdatedAt_r := UpdatedAt_r v\<rparr>"
  let ?g = "\<lambda>r. if ?key r = collate C (ReviewID rvw) then ?f r else r"
  have same: "map ?g (product_reviews s) = product_reviews s"
    using assms(1) by (rule map_update_absent)
  have grow: "?g row = row"
    using k veq by simp
  have again: "map ?g (product_reviews s @ [row]) = product_reviews s @ [row]"
    using same grow by simp
  have none: "filter (\<lambda>r. ?key r = collate C (ReviewID rvw)) (product_reviews s) = []"
    using assms(1) by (rule filter_key_absent)
  have "review_rows C (ReviewID rvw) s' = [row]"
    unfolding review_rows_def s' using none k by simp
  moreover have "UpsertProductReview C rvw s' = Inr s'"
    unfolding UpsertProductReview_def s' using on chk k v again by simp
  ultimately show ?thesis using row by simp
qed

lemma UpsertProductReview_twice:
  assumes "distinct (map (\<lambda>r. collate C (ReviewID r)) (product_reviews s))" and "key_kept C (ReviewID rvw)"
    and "UpsertProductReview C rvw s = Inr s'"
  shows "UpsertProductReview C rvw s' = Inr s' \<and>
         (case find (\<lambda>r. collate C (ReviewID r) = collate C (ReviewID rvw)) (product_reviews s) of
            None \<Rightarrow> \<exists>row. review_values C rvw = Some row \<and> review_rows C (ReviewID rvw) s' = [row]
          | Some r0 \<Rightarrow> \<exists>v. review_set C rvw = Some v \<and>
              review_rows C (ReviewID rvw) s' =
                [r0\<lparr>ProductName := ProductName v, Username := Username v, Rating := Rating v, Remarks := Remarks v, UpdatedAt_r := UpdatedAt_r v\<rparr>])"
proof (cases "collate C (ReviewID rvw) \<in> (\<lambda>r. collate C (ReviewID r)) ` set (product_reviews s)")
  case True
  then obtain r0 where r0: "r0 \<in> set (product_reviews s)" "collate C (ReviewID r0) = collate C (ReviewID rvw)"
    by auto
  have found: "find (\<lambda>r. collate C (ReviewID r) = collate C (ReviewID rvw)) (product_reviews s) = Some r0"
    using assms(1) r0 by (rule find_key_distinct)
  from UpsertProductReview_present[OF assms(1) r0 assms(3)] found show ?thesis by auto
next
  case False
  then have "find (\<lambda>r. collate C (ReviewID r) = collate C (ReviewID rvw)) (product_reviews s) = None"
    by (rule find_key_absent)
  with UpsertProductReview_absent[OF False assms(2,3)] show ?thesis by auto
qed

lemma UpsertProductReview_succeeds:
  assumes "online s" "key_kept C (ReviewID rvw)" "review_values C rvw = Some row"
    "1 \<le> Rating rvw" "Rating rvw \<le> 5"
  shows "\<exists>s'. UpsertProductReview C rvw s = Inr s'"
proof (cases "\<exists>r \<in> set (product_reviews s). collate C (ReviewID r) = collate C (ReviewID rvw)")
  case True
  with assms(1,4,5) review_values_Some(3)[OF assms(3)] show ?thesis
    by (auto simp add: UpsertProductReview_def sql_int_def)
next
  case False
  from assms(2) review_values_Some(1)[OF assms(3)]
  have "collate C (ReviewID row) = collate C (ReviewID rvw)" by (simp add: key_kept_def)
  with False assms(1,3,4,5) show ?thesis
    by (simp add: UpsertProductReview_def sql_int_def)
qed

text \<open>
  The schema is an invariant: the empty database satisfies it and every upsert that
  succeeds keeps it.
\<close>

lemma distinct_key_update:
  "(\<And>r. key (f r) = key r) \<Longrightarrow> distinct (map key rows) \<Longrightarrow>
   distinct (map key (map (\<lambda>r. if key r = k then f r else r) rows))"
  by (simp only: map_key_update)

lemma user_known_update:
  "user_known C (s\<lparr>users := map (\<lambda>r. if collate C (UserID r) = k then f r else r) (users s)\<rparr>) w
     = user_known C s w"
  if "\<And>r. UserID (f r) = UserID r"
proof -
  have "\<And>r. collate C (UserID (f r)) = collate C (UserID r)" using that by simp
  from key_in_update[where key = "\<lambda>r. collate C (UserID r)" and f = f, OF this]
  show ?thesis by (simp add: user_known_def)
qed

lemma UpsertUser_keeps_schema:
  assumes "schema_ok C s" "UpsertUser C u s = Inr s'"
  shows "schema_ok C s'"
proof (cases "\<exists>r \<in> set (users s). collate C (UserID r) = collate C (UserID u)")
  case True
  then obtain v where
    s': "s' = s\<lparr>users := map (\<lambda>r. if collate C (UserID r) = collate C (UserID u)
        then r\<lparr>Name := Name v, Email := Email v, UpdatedAt := UpdatedAt v\<rparr> else r) (users s)\<rparr>"
    and v: "user_set C u = Some v"
    using UpsertUser_cases[OF assms(2)] by auto
  let ?f = "\<lambda>r. r\<lparr>Name := Name v, Email := Email v, UpdatedAt := UpdatedAt v\<rparr>"
  have d: "distinct (map (\<lambda>r. collate C (UserID r))
      (map (\<lambda>r. if collate C (UserID r) = collate C (UserID u) then ?f r else r) (users s)))"
    using assms(1) by (intro distinct_key_update) (simp_all add: schema_ok_def)
  have k: "\<And>w. user_known C s' w = user_known C s w"
    unfolding s' by (rule user_known_update) simp
  from assms(1) d show ?thesis
    unfolding schema_ok_def k by (simp add: s')
next
  case False
  then obtain row where
    s': "s' = s\<lparr>users := users s @ [row]\<rparr>"
    and pk: "\<not> (\<exists>r \<in> set (users s). collate C (UserID r) = collate C (UserID row))"
    using UpsertUser_cases[OF assms(2)] by auto
  have k: "\<And>w. user_known C s w \<Longrightarrow> user_known C s' w"
    by (auto simp: user_known_def s')
  from pk have "collate C (UserID row) \<notin> (\<lambda>r. collate C (UserID r)) ` set (users s)"
    by (auto simp: image_iff)
  with assms(1) k show ?thesis
    by (auto simp: schema_ok_def s' list_all_iff)
qed

lemma UpsertOrder_keeps_schema:
  assumes "schema_ok C s" "UpsertOrder C ord s = Inr s'"
  shows "schema_ok C s'"
proof (cases "\<exists>r \<in> set (orders s). collate C (OrderID r) = collate C (OrderID ord)")
  case True
  then obtain v where
    s': "s' = s\<lparr>orders := map (\<lambda>r. if collate C (OrderID r) = collate C (OrderID ord)
        then r\<lparr>UserID_o := UserID_o v, Total := Total v, Status := Status v,
               UpdatedAt_o := UpdatedAt_o v\<rparr> else r) (orders s)\<rparr>"
    and fk: "user_known C s (UserID_o v)" and v: "order_set C ord = Some v"
    using UpsertOrder_cases[OF assms(2)] by auto
  let ?f = "\<lambda>r. r\<lparr>UserID_o := UserID_o v, Total := Total v, Status := Status v,
               UpdatedAt_o := UpdatedAt_o v\<rparr>"
  have d: "distinct (map (\<lambda>r. collate C (OrderID r))
      (map (\<lambda>r. if collate C (OrderID r) = collate C (OrderID ord) then ?f r else r) (orders s)))"
    using assms(1) by (intro distinct_key_update) (simp_all add: schema_ok_def)
  have k: "\<And>w. user_known C s' w = user_known C s w"
    by (simp add: user_known_def s')
  from assms(1) d fk show ?thesis
    unfolding schema_ok_def k by (auto simp: s' list_all_iff)
next
  case False
  then obtain row where
    s': "s' = s\<lparr>orders := orders s @ [row]\<rparr>"
    and pk: "\<not> (\<exists>r \<in> set (orders s). collate C (OrderID r) = collate C (OrderID row))"
    and fk: "user_known C s (UserID_o row)"
    using UpsertOrder_cases[OF assms(2)] by auto
  have k: "\<And>w. user_known C s' w = user_known C s w"
    by (simp add: user_known_def s')
  from pk have "collate C (OrderID row) \<notin> (\<lambda>r. collate C (OrderID r)) ` set (orders s)"
    by (auto simp: image_iff)
  with assms(1) fk show ?thesis
    unfolding schema_ok_def k by (auto simp: s' list_all_iff)
qed

lemma UpsertPayment_keeps_schema:
  assumes "schema_ok C s" "UpsertPayment C pay s = Inr s'"
  shows "schema_ok C s'"
proof (cases "\<exists>r \<in> set (payments s). collate C (OrderID_p r) = collate C (OrderID_p pay)")
  case True
  then obtain v where
    s': "s' = s\<lparr>payments := map (\<lambda>r. if collate C (OrderID_p r) = collate C (OrderID_p pay)
        then r\<lparr>Status_p := Status_p v, Amount := Amount v, SettledAt := SettledAt v,
               UpdatedAt_p := UpdatedAt_p v\<rparr> else r) (payments s)\<rparr>"
    and v: "payment_set C pay = Some v"
    using UpsertPayment_cases[OF assms(2)] by auto
  let ?f = "\<lambda>r. r\<lparr>Status_p := Status_p v, Amount := Amount v, SettledAt := SettledAt v,
               UpdatedAt_p := UpdatedAt_p v\<rparr>"
  have d: "distinct (map (\<lambda>r. collate C (OrderID_p r))
      (map (\<lambda>r. if collate C (OrderID_p r) = collate C (OrderID_p pay) then ?f r else r)
         (payments s)))"
    using assms(1) by (intro distinct_key_update) (simp_all add: schema_ok_def)
  have k: "\<And>w. user_known C s' w = user_known C s w"
    by (simp add: user_known_def s')
  from assms(1) d show ?thesis
    unfolding schema_ok_def k by (simp add: s')
next
  case False
  then obtain row where
    s': "s' = s\<lparr>payments := payments s @ [row]\<rparr>"
    and pk: "\<not> (\<exists>r \<in> set (payments s). collate C (OrderID_p r) = collate C (OrderID_p row))"
    using UpsertPayment_cases[OF assms(2)] by auto
  have k: "\<And>w. user_known C s' w = user_known C s w"
    by (simp add: user_known_def s')
  from pk have "collate C (OrderID_p row) \<notin> (\<lambda>r. collate C (OrderID_p r)) ` set (payments s)"
    by (auto simp: image_iff)
  with assms(1) show ?thesis
    unfolding schema_ok_def k by (auto simp: s')
qed

lemma UpsertInventory_cases:
  assumes "UpsertInventory C item s = Inr s'"
  shows "online s \<and>
     (if \<exists>r \<in> set (inventory s). collate C (SKU r) = collate C (SKU item)
      then \<not> (\<exists>r \<in> set (inventory s). collate C (SKU r) = collate C (SKU item) \<and>
               \<not> sql_int (Quantity r + Quantity item)) \<and>
        (\<exists>v. inventory_set C item = Some v \<and>
           s' = s\<lparr>inventory := map (\<lambda>r. if collate C (SKU r) = collate C (SKU item)
             then r\<lparr>Quantity := Quantity r + Quantity v, LastAdjustedAt := LastAdjustedAt v\<rparr>
             else r) (inventory s)\<rparr>)
      else sql_int (Quantity item) \<and>
        (\<exists>row. inventory_values C item = Some row \<and>
           \<not> (\<exists>r \<in> set (inventory s). collate C (SKU r) = collate C (SKU row)) \<and>
           s' = s\<lparr>inventory := inventory s @ [row]\<rparr>))"
  using assms unfolding UpsertInventory_def by (auto split: if_splits option.splits)

lemma UpsertInventory_keeps_schema:
  assumes "schema_ok C s" "UpsertInventory C item s = Inr s'"
  shows "schema_ok C s'"
proof (cases "\<exists>r \<in> set (inventory s). collate C (SKU r) = collate C (SKU item)")
  case True
  then obtain v where
    s': "s' = s\<lparr>inventory := map (\<lambda>r. if collate C (SKU r) = collate C (SKU item)
        then r\<lparr>Quantity := Quantity r + Quantity v, LastAdjustedAt := LastAdjustedAt v\<rparr>
        else r) (inventory s)\<rparr>"
    and v: "inventory_set C item = Some v"
    and fit: "\<not> (\<exists>r \<in> set (inventory s). collate C (SKU r) = collate C (SKU item) \<and>
        \<not> sql_int (Quantity r + Quantity item))"
    using UpsertInventory_cases[OF assms(2)] by auto
  from v have q: "Quantity v = Quantity item"
    by (auto simp: inventory_set_def split: option.splits)
  let ?f = "\<lambda>r. r\<lparr>Quantity := Quantity r + Quantity v, LastAdjustedAt := LastAdjustedAt v\<rparr>"
  have d: "distinct (map (\<lambda>r. collate C (SKU r))
      (map (\<lambda>r. if collate C (SKU r) = collate C (SKU item) then ?f r else r) (inventory s)))"
    using assms(1) by (intro distinct_key_update) (simp_all add: schema_ok_def)
  have k: "\<And>w. user_known C s' w = user_known C s w"
    by (simp add: user_known_def s')
  from assms(1) d fit q show ?thesis
    unfolding schema_ok_def k by (auto simp: s' list_all_iff)
next
  case False
  then obtain row where
    s': "s' = s\<lparr>inventory := inventory s @ [row]\<rparr>"
    and pk: "\<not> (\<exists>r \<in> set (inventory s). collate C (SKU r) = collate C (SKU row))"
    and row: "inventory_values C item = Some row" and fit: "sql_int (Quantity item)"
    using UpsertInventory_cases[OF assms(2)] by auto
  from row have q: "Quantity row = Quantity item"
    by (auto simp: inventory_values_def split: option.splits)
  have k: "\<And>w. user_known C s' w = user_known C s w"
    by (simp add: user_known_def s')
  from pk have "collate C (SKU row) \<notin> (\<lambda>r. collate C (SKU r)) ` set (inventory s)"
    by (auto simp: image_iff)
  with assms(1) fit q show ?thesis
    unfolding schema_ok_def k by (auto simp: s')
qed

lemma UpsertProductReview_keeps_schema:
  assumes "schema_ok C s" "UpsertProductReview C rvw s = Inr s'"
  shows "schema_ok C s'"
proof (cases "\<exists>r \<in> set (product_reviews s). collate C (ReviewID r) = collate C (ReviewID rvw)")
  case True
  then obtain v where
    s': "s' = s\<lparr>product_reviews := map (\<lambda>r. if collate C (ReviewID r) = collate C (ReviewID rvw)
        then r\<lparr>ProductName := ProductName v, Username := Username v, Rating := Rating v,
               Remarks := Remarks v, UpdatedAt_r := UpdatedAt_r v\<rparr> else r)
          (product_reviews s)\<rparr>"
    and v: "review_set C rvw = Some v" and chk: "1 \<le> Rating rvw" "Rating rvw \<le> 5"
    using UpsertProductReview_cases[OF assms(2)] by auto
  from v have q: "Rating v = Rating rvw"
    by (auto simp: review_set_def split: option.splits)
  let ?f = "\<lambda>r. r\<lparr>ProductName := ProductName v, Username := Username v, Rating := Rating v,
               Remarks := Remarks v, UpdatedAt_r := UpdatedAt_r v\<rparr>"
  have d: "distinct (map (\<lambda>r. collate C (ReviewID r))
      (map (\<lambda>r. if collate C (ReviewID r) = collate C (ReviewID rvw) then ?f r else r)
         (product_reviews s)))"
    using assms(1) by (intro distinct_key_update) (simp_all add: schema_ok_def)
  have k: "\<And>w. user_known C s' w = user_known C s w"
    by (simp add: user_known_def s')
  from assms(1) d chk q show ?thesis
    unfolding schema_ok_def k by (auto simp: s' list_all_iff)
next
  case False
  then obtain row where
    s': "s' = s\<lparr>product_reviews := product_reviews s @ [row]\<rparr>"
    and pk: "\<not> (\<exists>r \<in> set (product_reviews s). collate C (ReviewID r) = collate C (ReviewID row))"
    and row: "review_values C rvw = Some row" and chk: "1 \<le> Rating rvw" "Rating rvw \<le> 5"
    using UpsertProductReview_cases[OF assms(2)] by auto
  from row have q: "Rating row = Rating rvw"
    by (auto simp: review_values_def split: option.splits)
  have k: "\<And>w. user_known C s' w = user_known C s w"
    by (simp add: user_known_def s')
  from pk have "collate C (ReviewID row) \<notin> (\<lambda>r. collate C (ReviewID r)) ` set (product_reviews s)"
    by (auto simp: image_iff)
  with assms(1) chk q show ?thesis
    unfolding schema_ok_def k by (auto simp: s')
qed

lemma empty_db_ok: "schema_ok C empty_db"
  by (simp add: schema_ok_def empty_db_def)

text \<open>The stored row, field by field.\<close>

lemma user_set_fields:
  "user_set C usr = Some v \<Longrightarrow>
   to_varchar C 255 (Name usr) = Some (Name v) \<and> to_varchar C 255 (Email usr) = Some (Email v) \<and>
   to_datetime2 C (UpdatedAt usr) = Some (UpdatedAt v)"
  by (auto simp: user_set_def split: option.splits)

lemma user_values_fields:
  "user_values C usr = Some row \<Longrightarrow>
   to_varchar C 100 (UserID usr) = Some (UserID row) \<and>
   to_varchar C 255 (Name usr) = Some (Name row) \<and> to_varchar C 255 (Email usr) = Some (Email row) \<and>
   to_datetime2 C (CreatedAt usr) = Some (CreatedAt row) \<and>
   to_datetime2 C (UpdatedAt usr) = Some (UpdatedAt row)"
  by (auto simp: user_values_def split: option.splits)

lemma order_set_fields:
  "order_set C ord = Some v \<Longrightarrow>
   to_varchar C 100 (UserID_o ord) = Some (UserID_o v) \<and> to_decimal C (Total ord) = Some (Total v) \<and>
   to_varchar C 50 (Status ord) = Some (Status v) \<and>
   to_datetime2 C (UpdatedAt_o ord) = Some (UpdatedAt_o v)"
  by (auto simp: order_set_def split: option.splits)

lemma order_values_fields:
  "order_values C ord = Some row \<Longrightarrow>
   to_varchar C 100 (OrderID ord) = Some (OrderID row) \<and>
   to_varchar C 100 (UserID_o ord) = Some (UserID_o row) \<and>
   to_decimal C (Total ord) = Some (Total row) \<and>
   to_varchar C 50 (Status ord) = Some (Status row) \<and>
   to_datetime2 C (CreatedAt_o ord) = Some (CreatedAt_o row) \<and>
   to_datetime2 C (UpdatedAt_o ord) = Some (UpdatedAt_o row)"
  by (auto simp: order_values_def split: option.splits)

lemma payment_set_fields:
  "payment_set C pay = Some v \<Longrightarrow>
   to_varchar C 50 (Status_p pay) = Some (Status_p v) \<and> to_decimal C (Amount pay) = Some (Amount v) \<and>
   to_datetime2 C (SettledAt pay) = Some (SettledAt v) \<and>
   to_datetime2 C (UpdatedAt_p pay) = Some (UpdatedAt_p v)"
  by (auto simp: payment_set_def split: option.splits)

lemma payment_values_fields:
  "payment_values C pay = Some row \<Longrightarrow>
   to_varchar C 100 (OrderID_p pay) = Some (OrderID_p row) \<and>
   to_varchar C 50 (Status_p pay) = Some (Status_p row) \<and>
   to_decimal C (Amount pay) = Some (Amount row) \<and>
   to_datetime2 C (SettledAt pay) = Some (SettledAt row) \<and>
   to_datetime2 C (UpdatedAt_p pay) = Some (UpdatedAt_p row)"
  by (auto simp: payment_values_def split: option.splits)

lemma review_set_fields:
  "review_set C rvw = Some v \<Longrightarrow>
   to_varchar C 255 (ProductName rvw) = Some (ProductName v) \<and>
   to_varchar C 255 (Username rvw) = Some (Username v) \<and> Rating v = Rating rvw \<and>
   to_text C (Remarks rvw) = Some (Remarks v) \<and>
   to_datetime2 C (UpdatedAt_r rvw) = Some (UpdatedAt_r v)"
  by (auto simp: review_set_def split: option.splits)

lemma review_values_fields:
  "review_values C rvw = Some row \<Longrightarrow>
   to_varchar C 100 (ReviewID rvw) = Some (ReviewID row) \<and>
   to_varchar C 255 (ProductName rvw) = Some (ProductName row) \<and>
   to_varchar C 255 (Username rvw) = Some (Username row) \<and> Rating row = Rating rvw \<and>
   to_text C (Remarks rvw) = Some (Remarks row) \<and>
   to_datetime2 C (CreatedAt_r rvw) = Some (CreatedAt_r row) \<and>
   to_datetime2 C (UpdatedAt_r rvw) = Some (UpdatedAt_r row)"
  by (auto simp: review_values_def split: option.splits)

lemma UpsertUser_stored:
  assumes "distinct (map (\<lambda>r. collate C (UserID r)) (users s))" and "key_kept C (UserID usr)"
    and "UpsertUser C usr s = Inr s'"
  shows "UpsertUser C usr s' = Inr s' \<and>
     (\<exists>row. user_rows C (UserID usr) s' = [row] \<and>
        to_varchar C 255 (Name usr) = Some (Name row) \<and>
        to_varchar C 255 (Email usr) = Some (Email row) \<and>
        to_datetime2 C (UpdatedAt usr) = Some (UpdatedAt row) \<and>
        (case find (\<lambda>r. collate C (UserID r) = collate C (UserID usr)) (users s) of
           None \<Rightarrow> to_varchar C 100 (UserID usr) = Some (UserID row) \<and>
                   to_datetime2 C (CreatedAt usr) = Some (CreatedAt row)
         | Some r0 \<Rightarrow> UserID row = UserID r0 \<and> CreatedAt row = CreatedAt r0))"
proof (cases "find (\<lambda>r. collate C (UserID r) = collate C (UserID usr)) (users s)")
  case None
  with UpsertUser_twice[OF assms] obtain row where row: "user_values C usr = Some row"
    "user_rows C (UserID usr) s' = [row]" and again: "UpsertUser C usr s' = Inr s'" by auto
  from user_values_fields[OF row(1)] row(2) again None show ?thesis by simp
next
  case (Some r0)
  with UpsertUser_twice[OF assms] obtain v where v: "user_set C usr = Some v"
    "user_rows C (UserID usr) s' = [r0\<lparr>Name := Name v, Email := Email v, UpdatedAt := UpdatedAt v\<rparr>]"
    and again: "UpsertUser C usr s' = Inr s'" by auto
  from user_set_fields[OF v(1)] v(2) again Some show ?thesis by simp
qed

lemma UpsertOrder_stored:
  assumes "distinct (map (\<lambda>r. collate C (OrderID r)) (orders s))" and "key_kept C (OrderID ord)"
    and "UpsertOrder C ord s = Inr s'"
  shows "UpsertOrder C ord s' = Inr s' \<and>
     (\<exists>row. order_rows C (OrderID ord) s' = [row] \<and>
        to_varchar C 100 (UserID_o ord) = Some (UserID_o row) \<and>
        to_decimal C (Total ord) = Some (Total row) \<and>
        to_varchar C 50 (Status ord) = Some (Status row) \<and>
        to_datetime2 C (UpdatedAt_o ord) = Some (UpdatedAt_o row) \<and>
        (case find (\<lambda>r. collate C (OrderID r) = collate C (OrderID ord)) (orders s) of
           None \<Rightarrow> to_varchar C 100 (OrderID ord) = Some (OrderID row) \<and>
                   to_datetime2 C (CreatedAt_o ord) = Some (CreatedAt_o row)
         | Some r0 \<Rightarrow> OrderID row = OrderID r0 \<and> CreatedAt_o row = CreatedAt_o r0))"
proof (cases "find (\<lambda>r. collate C (OrderID r) = collate C (OrderID ord)) (orders s)")
  case None
  with UpsertOrder_twice[OF assms] obtain row where row: "order_values C ord = Some row"
    "order_rows C (OrderID ord) s' = [row]" and again: "UpsertOrder C ord s' = Inr s'" by auto
  from order_values_fields[OF row(1)] row(2) again None show ?thesis by simp
next
  case (Some r0)
  with UpsertOrder_twice[OF assms] obtain v where v: "order_set C ord = Some v"
    "order_rows C (OrderID ord) s' =
       [r0\<lparr>UserID_o := UserID_o v, Total := Total v, Status := Status v,
           UpdatedAt_o := UpdatedAt_o v\<rparr>]"
    and again: "UpsertOrder C ord s' = Inr s'" by auto
  from order_set_fields[OF v(1)] v(2) again Some show ?thesis by simp
qed

lemma UpsertPayment_stored:
  assumes "distinct (map (\<lambda>r. collate C (OrderID_p r)) (payments s))"
    and "key_kept C (OrderID_p pay)" and "UpsertPayment C pay s = Inr s'"
  shows "UpsertPayment C pay s' = Inr s' \<and>
     (\<exists>row. payment_rows C (OrderID_p pay) s' = [row] \<and>
        to_varchar C 50 (Status_p pay) = Some (Status_p row) \<and>
        to_decimal C (Amount pay) = Some (Amount row) \<and>
        to_datetime2 C (SettledAt pay) = Some (SettledAt row) \<and>
        to_datetime2 C (UpdatedAt_p pay) = Some (UpdatedAt_p row) \<and>
        (case find (\<lambda>r. collate C (OrderID_p r) = collate C (OrderID_p pay)) (payments s) of
           None \<Rightarrow> to_varchar C 100 (OrderID_p pay) = Some (OrderID_p row)
         | Some r0 \<Rightarrow> OrderID_p row = OrderID_p r0))"
proof (cases "find (\<lambda>r. collate C (OrderID_p r) = collate C (OrderID_p pay)) (payments s)")
  case None
  with UpsertPayment_twice[OF assms] obtain row where row: "payment_values C pay = Some row"
    "payment_rows C (OrderID_p pay) s' = [row]" and again: "UpsertPayment C pay s' = Inr s'"
    by auto
  from payment_values_fields[OF row(1)] row(2) again None show ?thesis by simp
next
  case (Some r0)
  with UpsertPayment_twice[OF assms] obtain v where v: "payment_set C pay = Some v"
    "payment_rows C (OrderID_p pay) s' =
       [r0\<lparr>Status_p := Status_p v, Amount := Amount v, SettledAt := SettledAt v,
           UpdatedAt_p := UpdatedAt_p v\<rparr>]"
    and again: "UpsertPayment C pay s' = Inr s'" by auto
  from payment_set_fields[OF v(1)] v(2) again Some show ?thesis by simp
qed

lemma UpsertProductReview_stored:
  assumes "distinct (map (\<lambda>r. collate C (ReviewID r)) (product_reviews s))"
    and "key_kept C (ReviewID rvw)" and "UpsertProductReview C rvw s = Inr s'"
  shows "UpsertProductReview C rvw s' = Inr s' \<and>
     (\<exists>row. review_rows C (ReviewID rvw) s' = [row] \<and>
        to_varchar C 255 (ProductName rvw) = Some (ProductName row) \<and>
        to_varchar C 255 (Username rvw) = Some (Username row) \<and>
        Rating row = Rating rvw \<and>
        to_text C (Remarks rvw) = Some (Remarks row) \<and>
        to_datetime2 C (UpdatedAt_r rvw) = Some (UpdatedAt_r row) \<and>
        (case find (\<lambda>r. collate C (ReviewID r) = collate C (ReviewID rvw)) (product_reviews s) of
           None \<Rightarrow> to_varchar C 100 (ReviewID rvw) = Some (ReviewID row) \<and>
                   to_datetime2 C (CreatedAt_r rvw) = Some (CreatedAt_r row)
         | Some r0 \<Rightarrow> ReviewID row = ReviewID r0 \<and> CreatedAt_r row = CreatedAt_r r0))"
proof (cases "find (\<lambda>r. collate C (ReviewID r) = collate C (ReviewID rvw)) (product_reviews s)")
  case None
  with UpsertProductReview_twice[OF assms] obtain row where row: "review_values C rvw = Some row"
    "review_rows C (ReviewID rvw) s' = [row]" and again: "UpsertProductReview C rvw s' = Inr s'"
    by auto
  from review_values_fields[OF row(1)] row(2) again None show ?thesis by simp
next
  case (Some r0)
  with UpsertProductReview_twice[OF assms] obtain v where v: "review_set C rvw = Some v"
    "review_rows C (ReviewID rvw) s' =
       [r0\<lparr>ProductName := ProductName v, Username := Username v, Rating := Rating v,
           Remarks := Remarks v, UpdatedAt_r := UpdatedAt_r v\<rparr>]"
    and again: "UpsertProductReview C rvw s' = Inr s'" by auto
  from review_set_fields[OF v(1)] v(2) again Some show ?thesis by simp
qed

text \<open>The update branch does not read the record's \<open>CreatedAt\<close>.\<close>

lemma UpsertUser_CreatedAt:
  "\<exists>r \<in> set (users s). collate C (UserID r) = collate C (UserID usr) \<Longrightarrow>
   UpsertUser C (usr\<lparr>CreatedAt := t\<rparr>) s = UpsertUser C usr s"
  by (auto simp: UpsertUser_def user_set_def split: option.splits)

lemma UpsertOrder_CreatedAt:
  "\<exists>r \<in> set (orders s). collate C (OrderID r) = collate C (OrderID ord) \<Longrightarrow>
   UpsertOrder C (ord\<lparr>CreatedAt_o := t\<rparr>) s = UpsertOrder C ord s"
  by (auto simp: UpsertOrder_def order_set_def split: option.splits)

lemma UpsertProductReview_CreatedAt:
  "\<exists>r \<in> set (product_reviews s). collate C (ReviewID r) = collate C (ReviewID rvw) \<Longrightarrow>
   UpsertProductReview C (rvw\<lparr>CreatedAt_r := t\<rparr>) s = UpsertProductReview C rvw s"
  by (auto simp: UpsertProductReview_def review_set_def split: option.splits)

section \<open>The sample server and the sample store\<close>

lemma sample_varchar:
  "length v \<le> n \<Longrightarrow> to_varchar sample_columns n v = Some v"
proof -
  assume a: "length v \<le> n"
  have "length (trim_right v) \<le> length v"
    unfolding trim_right_def using length_dropWhile_le[of _ "rev v"] by simp
  with a show ?thesis by (simp add: sample_columns_def)
qed

lemma sample_collate: "collate sample_columns = trim_right"
  by (simp add: sample_columns_def)

lemma sample_key_kept: "length k \<le> 100 \<Longrightarrow> key_kept sample_columns k"
  by (simp add: key_kept_def sample_varchar)

lemma sample_datetime2:
  "to_datetime2 sample_columns 100 = Some 100"
  "to_datetime2 sample_columns 200 = Some 200"
  "to_datetime2 sample_columns 300 = Some 300"
  by (simp_all add: sample_columns_def)

lemma sample_text: "to_text sample_columns v = Some v"
  by (simp add: sample_columns_def)

lemma sample_decimal:
  "to_decimal sample_columns 10 = Some 10"
  "to_decimal sample_columns 25 = Some 25"
  "to_decimal sample_columns (19999 / 1000) = Some 20"
  by code_simp+

lemma sample_db_ok: "schema_ok sample_columns sample_db"
  by (simp add: schema_ok_def sample_db_def stored_user_def stored_order_def stored_item_def
        stored_review_def sql_int_def user_known_def)

lemma sample_values:
  "user_values sample_columns incoming_user = Some incoming_user"
  "order_values sample_columns incoming_order = Some incoming_order"
  "payment_values sample_columns incoming_payment = Some (incoming_payment\<lparr>Amount := 20\<rparr>)"
  "review_values sample_columns incoming_review = Some incoming_review"
  by (simp_all add: user_values_def order_values_def payment_values_def review_values_def
      incoming_user_def incoming_order_def incoming_payment_def incoming_review_def
      sample_varchar sample_datetime2 sample_decimal sample_text)

lemma sample_datetime2_cut: "to_datetime2 sample_columns t = Some (t - t mod 100)"
  by (simp add: sample_columns_def)

lemma sample_decimal_more:
  "to_decimal sample_columns (1999 / 200) = Some 10"
  by code_simp

lemma sample_sets:
  "user_set sample_columns incoming_user = Some incoming_user"
  "order_set sample_columns incoming_order = Some incoming_order"
  "review_set sample_columns incoming_review = Some incoming_review"
  by (simp_all add: user_set_def order_set_def review_set_def
      incoming_user_def incoming_order_def incoming_review_def
      sample_varchar sample_datetime2 sample_decimal sample_text)

lemma sample_db_facts:
  "online sample_db"
  "user_known sample_columns sample_db (UserID_o incoming_order)"
  "1 \<le> Rating incoming_review" "Rating incoming_review \<le> 5"
  by (simp_all add: sample_db_def stored_user_def incoming_review_def incoming_order_def
      user_known_def)

lemma sample_keys:
  "key_kept sample_columns ''u1''" "key_kept sample_columns ''u2''"
  "key_kept sample_columns ''o1''" "key_kept sample_columns ''o2''"
  "key_kept sample_columns ''r1''" "key_kept sample_columns ''r2''"
  "key_kept sample_columns ''S1''" "key_kept sample_columns ''S2''"
  by (simp_all add: sample_key_kept)

lemma sample_finds:
  "find (\<lambda>r. collate sample_columns (UserID r) = collate sample_columns ''u1'') (users sample_db)
     = Some stored_user"
  "find (\<lambda>r. collate sample_columns (UserID r) = collate sample_columns ''u2'') (users sample_db)
     = None"
  "find (\<lambda>r. collate sample_columns (OrderID r) = collate sample_columns ''o1'') (orders sample_db)
     = Some stored_order"
  "find (\<lambda>r. collate sample_columns (OrderID r) = collate sample_columns ''o2'') (orders sample_db)
     = None"
  "find (\<lambda>r. collate sample_columns (OrderID_p r) = collate sample_columns ''o1'')
     (payments sample_db) = None"
  "find (\<lambda>r. collate sample_columns (ReviewID r) = collate sample_columns ''r1'')
     (product_reviews sample_db) = Some stored_review"
  "find (\<lambda>r. collate sample_columns (ReviewID r) = collate sample_columns ''r2'')
     (product_reviews sample_db) = None"
  by (simp_all add: sample_db_def stored_user_def stored_order_def stored_review_def
      sample_collate trim_right_def)

lemma sample_fields:
  "UserID incoming_user = ''u1''" "OrderID incoming_order = ''o1''"
  "OrderID_p incoming_payment = ''o1''" "ReviewID incoming_review = ''r1''"
  by (simp_all add: incoming_user_def incoming_order_def incoming_payment_def incoming_review_def)

section \<open>Upserting the same record twice (C3)\<close>

text \<open>
  Claim C3 says that upserting an identical User, Order, Payment or ProductReview twice
  leaves exactly one stored row whose fields equal the record, the second call changing
  nothing. As stated it fails where a row with the key was stored before: the update
  branch never writes \<open>created_at\<close>, so the stored row keeps the old value and differs
  from the record. Here the server stores every value of the record unchanged, the store
  holds user \<open>u1\<close> created at instant 100, and the record upserted twice says instant 200.
\<close>

theorem upsert_twice_counterexample:
  "UpsertUser sample_columns incoming_user sample_db
     = Inr (sample_db\<lparr>users := [incoming_user\<lparr>CreatedAt := 100\<rparr>]\<rparr>) \<and>
   UpsertUser sample_columns incoming_user (sample_db\<lparr>users := [incoming_user\<lparr>CreatedAt := 100\<rparr>]\<rparr>)
     = Inr (sample_db\<lparr>users := [incoming_user\<lparr>CreatedAt := 100\<rparr>]\<rparr>) \<and>
   user_rows sample_columns ''u1'' (sample_db\<lparr>users := [incoming_user\<lparr>CreatedAt := 100\<rparr>]\<rparr>)
     = [incoming_user\<lparr>CreatedAt := 100\<rparr>] \<and>
   incoming_user\<lparr>CreatedAt := 100\<rparr> \<noteq> incoming_user"
  by (simp add: UpsertUser_def sample_sets user_rows_def sample_collate)
     (simp add: sample_db_def incoming_user_def stored_user_def trim_right_def)

text \<open>
  Claim C3, as amended. In a store that satisfies the schema, whenever the upsert of a
  User, Order, Payment or ProductReview succeeds and the key column keeps the record's
  key (what it stores for the key equals the key in T-SQL), upserting the identical
  record again succeeds and returns the very same store, which holds exactly one row
  under the record's key. Each column of the \<open>SET\<close> list of that row is the record's
  field as the column stores it: a \<open>VARCHAR\<close> of the declared length, a \<open>DECIMAL(18,2)\<close>,
  a \<open>DATETIME2\<close>, or the \<open>INT\<close> rating. If no row had the key before the first call,
  the key and \<open>created_at\<close> are the record's too, as stored; otherwise they are those of
  the row stored before, so that \<open>created_at\<close> of a User, Order or ProductReview keeps
  its old value. And the upsert does succeed when the server is reachable, the key is
  kept, every field of the record is storable, an order's \<open>user_id\<close> as stored equals
  that of a stored user, and a review's rating is from 1 to 5.
\<close>

theorem upsert_twice_as_once:
  assumes "schema_ok C s"
  shows
    "(\<forall>s'. UpsertUser C usr s = Inr s' \<and> key_kept C (UserID usr) \<longrightarrow>
        UpsertUser C usr s' = Inr s' \<and>
        (\<exists>row. user_rows C (UserID usr) s' = [row] \<and>
           to_varchar C 255 (Name usr) = Some (Name row) \<and>
           to_varchar C 255 (Email usr) = Some (Email row) \<and>
           to_datetime2 C (UpdatedAt usr) = Some (UpdatedAt row) \<and>
           (case find (\<lambda>r. collate C (UserID r) = collate C (UserID usr)) (users s) of
              None \<Rightarrow> to_varchar C 100 (UserID usr) = Some (UserID row) \<and>
                      to_datetime2 C (CreatedAt usr) = Some (CreatedAt row)
            | Some r0 \<Rightarrow> UserID row = UserID r0 \<and> CreatedAt row = CreatedAt r0))) \<and>
     (\<forall>s'. UpsertOrder C ord s = Inr s' \<and> key_kept C (OrderID ord) \<longrightarrow>
        UpsertOrder C ord s' = Inr s' \<and>
        (\<exists>row. order_rows C (OrderID ord) s' = [row] \<and>
           to_varchar C 100 (UserID_o ord) = Some (UserID_o row) \<and>
           to_decimal C (Total ord) = Some (Total row) \<and>
           to_varchar C 50 (Status ord) = Some (Status row) \<and>
           to_datetime2 C (UpdatedAt_o ord) = Some (UpdatedAt_o row) \<and>
           (case find (\<lambda>r. collate C (OrderID r) = collate C (OrderID ord)) (orders s) of
              None \<Rightarrow> to_varchar C 100 (OrderID ord) = Some (OrderID row) \<and>
                      to_datetime2 C (CreatedAt_o ord) = Some (CreatedAt_o row)
            | Some r0 \<Rightarrow> OrderID row = OrderID r0 \<and> CreatedAt_o row = CreatedAt_o r0))) \<and>
     (\<forall>s'. UpsertPayment C pay s = Inr s' \<and> key_kept C (OrderID_p pay) \<longrightarrow>
        UpsertPayment C pay s' = Inr s' \<and>
        (\<exists>row. payment_rows C (OrderID_p pay) s' = [row] \<and>
           to_varchar C 50 (Status_p pay) = Some (Status_p row) \<and>
           to_decimal C (Amount pay) = Some (Amount row) \<and>
           to_datetime2 C (SettledAt pay) = Some (SettledAt row) \<and>
           to_datetime2 C (UpdatedAt_p pay) = Some (UpdatedAt_p row) \<and>
           (case find (\<lambda>r. collate C (OrderID_p r) = collate C (OrderID_p pay)) (payments s) of
              None \<Rightarrow> to_varchar C 100 (OrderID_p pay) = Some (OrderID_p row)
            | Some r0 \<Rightarrow> OrderID_p row = OrderID_p r0))) \<and>
     (\<forall>s'. UpsertProductReview C rvw s = Inr s' \<and> key_kept C (ReviewID rvw) \<longrightarrow>
        UpsertProductReview C rvw s' = Inr s' \<and>
        (\<exists>row. review_rows C (ReviewID rvw) s' = [row] \<and>
           to_varchar C 255 (ProductName rvw) = Some (ProductName row) \<and>
           to_varchar C 255 (Username rvw) = Some (Username row) \<and>
           Rating row = Rating rvw \<and>
           to_text C (Remarks rvw) = Some (Remarks row) \<and>
           to_datetime2 C (UpdatedAt_r rvw) = Some (UpdatedAt_r row) \<and>
           (case find (\<lambda>r. collate C (ReviewID r) = collate C (ReviewID rvw))
                   (product_reviews s) of
              None \<Rightarrow> to_varchar C 100 (ReviewID rvw) = Some (ReviewID row) \<and>
                      to_datetime2 C (CreatedAt_r rvw) = Some (CreatedAt_r row)
            | Some r0 \<Rightarrow> ReviewID row = ReviewID r0 \<and> CreatedAt_r row = CreatedAt_r r0))) \<and>
     (online s \<and> key_kept C (UserID usr) \<and> user_values C usr \<noteq> None \<longrightarrow>
        (\<exists>s'. UpsertUser C usr s = Inr s')) \<and>
     (online s \<and> key_kept C (OrderID ord) \<and>
        (\<exists>row. order_values C ord = Some row \<and> user_known C s (UserID_o row)) \<longrightarrow>
        (\<exists>s'. UpsertOrder C ord s = Inr s')) \<and>
     (online s \<and> key_kept C (OrderID_p pay) \<and> payment_values C pay \<noteq> None \<longrightarrow>
        (\<exists>s'. UpsertPayment C pay s = Inr s')) \<and>
     (online s \<and> key_kept C (ReviewID rvw) \<and> review_values C rvw \<noteq> None \<and>
        1 \<le> Rating rvw \<and> Rating rvw \<le> 5 \<longrightarrow>
        (\<exists>s'. UpsertProductReview C rvw s = Inr s'))"
proof -
  from assms have d: "distinct (map (\<lambda>r. collate C (UserID r)) (users s))"
    "distinct (map (\<lambda>r. collate C (OrderID r)) (orders s))"
    "distinct (map (\<lambda>r. collate C (OrderID_p r)) (payments s))"
    "distinct (map (\<lambda>r. collate C (ReviewID r)) (product_reviews s))"
    by (simp_all add: schema_ok_def)
  show ?thesis
  proof (intro conjI allI impI; (elim conjE)?)
    fix s' assume "UpsertUser C usr s = Inr s'" "key_kept C (UserID usr)"
    from UpsertUser_stored[OF d(1) this(2,1)]
    show "UpsertUser C usr s' = Inr s'"
      and "\<exists>row. user_rows C (UserID usr) s' = [row] \<and>
           to_varchar C 255 (Name usr) = Some (Name row) \<and>
           to_varchar C 255 (Email usr) = Some (Email row) \<and>
           to_datetime2 C (UpdatedAt usr) = Some (UpdatedAt row) \<and>
           (case find (\<lambda>r. collate C (UserID r) = collate C (UserID usr)) (users s) of
              None \<Rightarrow> to_varchar C 100 (UserID usr) = Some (UserID row) \<and>
                      to_datetime2 C (CreatedAt usr) = Some (CreatedAt row)
            | Some r0 \<Rightarrow> UserID row = UserID r0 \<and> CreatedAt row = CreatedAt r0)"
      by (rule conjunct1, rule conjunct2)
  next
    fix s' assume "UpsertOrder C ord s = Inr s'" "key_kept C (OrderID ord)"
    from UpsertOrder_stored[OF d(2) this(2,1)]
    show "UpsertOrder C ord s' = Inr s'"
      and "\<exists>row. order_rows C (OrderID ord) s' = [row] \<and>
           to_varchar C 100 (UserID_o ord) = Some (UserID_o row) \<and>
           to_decimal C (Total ord) = Some (Total row) \<and>
           to_varchar C 50 (Status ord) = Some (Status row) \<and>
           to_datetime2 C (UpdatedAt_o ord) = Some (UpdatedAt_o row) \<and>
           (case find (\<lambda>r. collate C (OrderID r) = collate C (OrderID ord)) (orders s) of
              None \<Rightarrow> to_varchar C 100 (OrderID ord) = Some (OrderID row) \<and>
                      to_datetime2 C (CreatedAt_o ord) = Some (CreatedAt_o row)
            | Some r0 \<Rightarrow> OrderID row = OrderID r0 \<and> CreatedAt_o row = CreatedAt_o r0)"
      by (rule conjunct1, rule conjunct2)
  next
    fix s' assume "UpsertPayment C pay s = Inr s'" "key_kept C (OrderID_p pay)"
    from UpsertPayment_stored[OF d(3) this(2,1)]
    show "UpsertPayment C pay s' = Inr s'"
      and "\<exists>row. payment_rows C (OrderID_p pay) s' = [row] \<and>
           to_varchar C 50 (Status_p pay) = Some (Status_p row) \<and>
           to_decimal C (Amount pay) = Some (Amount row) \<and>
           to_datetime2 C (SettledAt pay) = Some (SettledAt row) \<and>
           to_datetime2 C (UpdatedAt_p pay) = Some (UpdatedAt_p row) \<and>
           (case find (\<lambda>r. collate C (OrderID_p r) = collate C (OrderID_p pay)) (payments s) of
              None \<Rightarrow> to_varchar C 100 (OrderID_p pay) = Some (OrderID_p row)
            | Some r0 \<Rightarrow> OrderID_p row = OrderID_p r0)"
      by (rule conjunct1, rule conjunct2)
  next
    fix s' assume "UpsertProductReview C rvw s = Inr s'" "key_kept C (ReviewID rvw)"
    from UpsertProductReview_stored[OF d(4) this(2,1)]
    show "UpsertProductReview C rvw s' = Inr s'"
      and "\<exists>row. review_rows C (ReviewID rvw) s' = [row] \<and>
           to_varchar C 255 (ProductName rvw) = Some (ProductName row) \<and>
           to_varchar C 255 (Username rvw) = Some (Username row) \<and>
           Rating row = Rating rvw \<and>
           to_text C (Remarks rvw) = Some (Remarks row) \<and>
           to_datetime2 C (UpdatedAt_r rvw) = Some (UpdatedAt_r row) \<and>
           (case find (\<lambda>r. collate C (ReviewID r) = collate C (ReviewID rvw))
                   (product_reviews s) of
              None \<Rightarrow> to_varchar C 100 (ReviewID rvw) = Some (ReviewID row) \<and>
                      to_datetime2 C (CreatedAt_r rvw) = Some (CreatedAt_r row)
            | Some r0 \<Rightarrow> ReviewID row = ReviewID r0 \<and> CreatedAt_r row = CreatedAt_r r0)"
      by (rule conjunct1, rule conjunct2)
  next
    assume "online s" "key_kept C (UserID usr)" "user_values C usr \<noteq> None"
    then show "\<exists>s'. UpsertUser C usr s = Inr s'"
      using UpsertUser_succeeds[of s C usr] by auto
  next
    assume "online s" "key_kept C (OrderID ord)"
      "\<exists>row. order_values C ord = Some row \<and> user_known C s (UserID_o row)"
    then show "\<exists>s'. UpsertOrder C ord s = Inr s'"
      using UpsertOrder_succeeds[of s C ord] by auto
  next
    assume "online s" "key_kept C (OrderID_p pay)" "payment_values C pay \<noteq> None"
    then show "\<exists>s'. UpsertPayment C pay s = Inr s'"
      using UpsertPayment_succeeds[of s C pay] by auto
  next
    assume "online s" "key_kept C (ReviewID rvw)" "review_values C rvw \<noteq> None"
      "1 \<le> Rating rvw" "Rating rvw \<le> 5"
    then show "\<exists>s'. UpsertProductReview C rvw s = Inr s'"
      using UpsertProductReview_succeeds[of s C rvw] by auto
  qed
qed

theorem upsert_twice_as_once_witness:
  "schema_ok sample_columns sample_db \<and>
   (\<exists>s'. UpsertUser sample_columns incoming_user sample_db = Inr s' \<and>
         UpsertUser sample_columns incoming_user s' = Inr s' \<and>
         user_rows sample_columns ''u1'' s' =
           [incoming_user\<lparr>CreatedAt := 100\<rparr>]) \<and>
   (\<exists>s'. UpsertUser sample_columns (incoming_user\<lparr>UserID := ''u2'', UpdatedAt := 399\<rparr>) sample_db = Inr s' \<and>
         UpsertUser sample_columns (incoming_user\<lparr>UserID := ''u2'', UpdatedAt := 399\<rparr>) s' = Inr s' \<and>
         user_rows sample_columns ''u2'' s' =
           [\<lparr>UserID = ''u2'', Name = ''B'', Email = ''b@x.com'', CreatedAt = 200, UpdatedAt = 300\<rparr>]) \<and>
   (\<exists>s'. UpsertOrder sample_columns incoming_order sample_db = Inr s' \<and>
         UpsertOrder sample_columns incoming_order s' = Inr s' \<and>
         order_rows sample_columns ''o1'' s' =
           [incoming_order\<lparr>CreatedAt_o := 100\<rparr>]) \<and>
   (\<exists>s'. UpsertOrder sample_columns (incoming_order\<lparr>OrderID := ''o2'', Total := 1999 / 200\<rparr>) sample_db = Inr s' \<and>
         UpsertOrder sample_columns (incoming_order\<lparr>OrderID := ''o2'', Total := 1999 / 200\<rparr>) s' = Inr s' \<and>
         order_rows sample_columns ''o2'' s' =
           [\<lparr>OrderID = ''o2'', UserID_o = ''u1'', Total = 10, Status = ''placed'', CreatedAt_o = 200, UpdatedAt_o = 300\<rparr>]) \<and>
   (\<exists>s'. UpsertPayment sample_columns incoming_payment sample_db = Inr s' \<and>
         UpsertPayment sample_columns incoming_payment s' = Inr s' \<and>
         payment_rows sample_columns ''o1'' s' =
           [\<lparr>OrderID_p = ''o1'', Status_p = ''settled'', Amount = 20, SettledAt = 200, UpdatedAt_p = 300\<rparr>]) \<and>
   (\<exists>s'. UpsertProductReview sample_columns incoming_review sample_db = Inr s' \<and>
         UpsertProductReview sample_columns incoming_review s' = Inr s' \<and>
         review_rows sample_columns ''r1'' s' =
           [incoming_review\<lparr>CreatedAt_r := 100\<rparr>]) \<and>
   (\<exists>s'. UpsertProductReview sample_columns (incoming_review\<lparr>ReviewID := ''r2''\<rparr>) sample_db = Inr s' \<and>
         UpsertProductReview sample_columns (incoming_review\<lparr>ReviewID := ''r2''\<rparr>) s' = Inr s' \<and>
         review_rows sample_columns ''r2'' s' =
           [\<lparr>ReviewID = ''r2'', ProductName = ''P'', Username = ''A'', Rating = 5, Remarks = ''good'', CreatedAt_r = 200, UpdatedAt_r = 300\<rparr>])"
proof -
  note T = upsert_twice_as_once[OF sample_db_ok, of incoming_user incoming_order
      incoming_payment incoming_review]
  note N = upsert_twice_as_once[OF sample_db_ok,
      of "incoming_user\<lparr>UserID := ''u2'', UpdatedAt := 399\<rparr>"
      "incoming_order\<lparr>OrderID := ''o2'', Total := 1999 / 200\<rparr>" incoming_payment
      "incoming_review\<lparr>ReviewID := ''r2''\<rparr>"]
  note c = conjunct1 conjunct2
  note k = sample_keys sample_finds sample_db_facts
  note v = sample_varchar sample_datetime2_cut sample_decimal sample_decimal_more sample_text
  have v1: "user_values sample_columns incoming_user \<noteq> None"
    by (simp add: user_values_def v incoming_user_def stored_user_def)
  obtain s1 where s1: "UpsertUser sample_columns incoming_user sample_db = Inr s1"
    using T[THEN c(2), THEN c(2), THEN c(2), THEN c(2), THEN c(1)] v1 by (auto simp: k sample_fields)
  have "UpsertUser sample_columns incoming_user s1 = Inr s1 \<and>
        user_rows sample_columns ''u1'' s1 =
           [incoming_user\<lparr>CreatedAt := 100\<rparr>]"
    using T[THEN c(1), rule_format, of s1] s1
    by (auto simp: k v incoming_user_def stored_user_def intro!: User.equality)
  with s1 have a1: "\<exists>s'. UpsertUser sample_columns incoming_user sample_db = Inr s' \<and>
         UpsertUser sample_columns incoming_user s' = Inr s' \<and>
         user_rows sample_columns ''u1'' s' =
           [incoming_user\<lparr>CreatedAt := 100\<rparr>]"
    by (intro exI[of _ s1]) simp
  have v2: "user_values sample_columns (incoming_user\<lparr>UserID := ''u2'', UpdatedAt := 399\<rparr>) \<noteq> None"
    by (simp add: user_values_def v incoming_user_def)
  obtain s2 where s2: "UpsertUser sample_columns (incoming_user\<lparr>UserID := ''u2'', UpdatedAt := 399\<rparr>) sample_db = Inr s2"
    using N[THEN c(2), THEN c(2), THEN c(2), THEN c(2), THEN c(1)] v2 by (auto simp: k sample_fields)
  have "UpsertUser sample_columns (incoming_user\<lparr>UserID := ''u2'', UpdatedAt := 399\<rparr>) s2 = Inr s2 \<and>
        user_rows sample_columns ''u2'' s2 =
           [\<lparr>UserID = ''u2'', Name = ''B'', Email = ''b@x.com'', CreatedAt = 200, UpdatedAt = 300\<rparr>]"
    using N[THEN c(1), rule_format, of s2] s2
    by (auto simp: k v incoming_user_def intro!: User.equality)
  with s2 have a2: "\<exists>s'. UpsertUser sample_columns (incoming_user\<lparr>UserID := ''u2'', UpdatedAt := 399\<rparr>) sample_db = Inr s' \<and>
         UpsertUser sample_columns (incoming_user\<lparr>UserID := ''u2'', UpdatedAt := 399\<rparr>) s' = Inr s' \<and>
         user_rows sample_columns ''u2'' s' =
           [\<lparr>UserID = ''u2'', Name = ''B'', Email = ''b@x.com'', CreatedAt = 200, UpdatedAt = 300\<rparr>]"
    by (intro exI[of _ s2]) simp
  have v3: "\<exists>row. order_values sample_columns incoming_order = Some row \<and>
      user_known sample_columns sample_db (UserID_o row)"
    by (simp add: order_values_def v incoming_order_def user_known_def sample_db_def
        stored_user_def sample_collate trim_right_def)
  obtain s3 where s3: "UpsertOrder sample_columns incoming_order sample_db = Inr s3"
    using T[THEN c(2), THEN c(2), THEN c(2), THEN c(2), THEN c(2), THEN c(1)] v3 by (auto simp: k sample_fields)
  have "UpsertOrder sample_columns incoming_order s3 = Inr s3 \<and>
        order_rows sample_columns ''o1'' s3 =
           [incoming_order\<lparr>CreatedAt_o := 100\<rparr>]"
    using T[THEN c(2), THEN c(1), rule_format, of s3] s3
    by (auto simp: k v incoming_order_def stored_order_def intro!: Order.equality)
  with s3 have a3: "\<exists>s'. UpsertOrder sample_columns incoming_order sample_db = Inr s' \<and>
         UpsertOrder sample_columns incoming_order s' = Inr s' \<and>
         order_rows sample_columns ''o1'' s' =
           [incoming_order\<lparr>CreatedAt_o := 100\<rparr>]"
    by (intro exI[of _ s3]) simp
  have v4: "\<exists>row. order_values sample_columns (incoming_order\<lparr>OrderID := ''o2'', Total := 1999 / 200\<rparr>) = Some row \<and>
      user_known sample_columns sample_db (UserID_o row)"
    by (simp add: order_values_def v incoming_order_def user_known_def sample_db_def
        stored_user_def sample_collate trim_right_def)
  obtain s4 where s4: "UpsertOrder sample_columns (incoming_order\<lparr>OrderID := ''o2'', Total := 1999 / 200\<rparr>) sample_db = Inr s4"
    using N[THEN c(2), THEN c(2), THEN c(2), THEN c(2), THEN c(2), THEN c(1)] v4 by (auto simp: k sample_fields)
  have "UpsertOrder sample_columns (incoming_order\<lparr>OrderID := ''o2'', Total := 1999 / 200\<rparr>) s4 = Inr s4 \<and>
        order_rows sample_columns ''o2'' s4 =
           [\<lparr>OrderID = ''o2'', UserID_o = ''u1'', Total = 10, Status = ''placed'', CreatedAt_o = 200, UpdatedAt_o = 300\<rparr>]"
    using N[THEN c(2), THEN c(1), rule_format, of s4] s4
    by (auto simp: k v incoming_order_def intro!: Order.equality)
  with s4 have a4: "\<exists>s'. UpsertOrder sample_columns (incoming_order\<lparr>OrderID := ''o2'', Total := 1999 / 200\<rparr>) sample_db = Inr s' \<and>
         UpsertOrder sample_columns (incoming_order\<lparr>OrderID := ''o2'', Total := 1999 / 200\<rparr>) s' = Inr s' \<and>
         order_rows sample_columns ''o2'' s' =
           [\<lparr>OrderID = ''o2'', UserID_o = ''u1'', Total = 10, Status = ''placed'', CreatedAt_o = 200, UpdatedAt_o = 300\<rparr>]"
    by (intro exI[of _ s4]) simp
  have v5: "payment_values sample_columns incoming_payment \<noteq> None"
    by (simp add: payment_values_def v incoming_payment_def)
  obtain s5 where s5: "UpsertPayment sample_columns incoming_payment sample_db = Inr s5"
    using T[THEN c(2), THEN c(2), THEN c(2), THEN c(2), THEN c(2), THEN c(2), THEN c(1)] v5 by (auto simp: k sample_fields)
  have "UpsertPayment sample_columns incoming_payment s5 = Inr s5 \<and>
        payment_rows sample_columns ''o1'' s5 =
           [\<lparr>OrderID_p = ''o1'', Status_p = ''settled'', Amount = 20, SettledAt = 200, UpdatedAt_p = 300\<rparr>]"
    using T[THEN c(2), THEN c(2), THEN c(1), rule_format, of s5] s5
    by (auto simp: k v incoming_payment_def intro!: Payment.equality)
  with s5 have a5: "\<exists>s'. UpsertPayment sample_columns incoming_payment sample_db = Inr s' \<and>
         UpsertPayment sample_columns incoming_payment s' = Inr s' \<and>
         payment_rows sample_columns ''o1'' s' =
           [\<lparr>OrderID_p = ''o1'', Status_p = ''settled'', Amount = 20, SettledAt = 200, UpdatedAt_p = 300\<rparr>]"
    by (intro exI[of _ s5]) simp
  have v6: "review_values sample_columns incoming_review \<noteq> None"
    by (simp add: review_values_def v incoming_review_def stored_review_def)
  obtain s6 where s6: "UpsertProductReview sample_columns incoming_review sample_db = Inr s6"
    using T[THEN c(2), THEN c(2), THEN c(2), THEN c(2), THEN c(2), THEN c(2), THEN c(2)] v6 by (auto simp: k sample_fields)
  have "UpsertProductReview sample_columns incoming_review s6 = Inr s6 \<and>
        review_rows sample_columns ''r1'' s6 =
           [incoming_review\<lparr>CreatedAt_r := 100\<rparr>]"
    using T[THEN c(2), THEN c(2), THEN c(2), THEN c(1), rule_format, of s6] s6
    by (auto simp: k v incoming_review_def stored_review_def intro!: ProductReview.equality)
  with s6 have a6: "\<exists>s'. UpsertProductReview sample_columns incoming_review sample_db = Inr s' \<and>
         UpsertProductReview sample_columns incoming_review s' = Inr s' \<and>
         review_rows sample_columns ''r1'' s' =
           [incoming_review\<lparr>CreatedAt_r := 100\<rparr>]"
    by (intro exI[of _ s6]) simp
  have v7: "review_values sample_columns (incoming_review\<lparr>ReviewID := ''r2''\<rparr>) \<noteq> None"
    by (simp add: review_values_def v incoming_review_def)
  obtain s7 where s7: "UpsertProductReview sample_columns (incoming_review\<lparr>ReviewID := ''r2''\<rparr>) sample_db = Inr s7"
    using N[THEN c(2), THEN c(2), THEN c(2), THEN c(2), THEN c(2), THEN c(2), THEN c(2)] v7 by (auto simp: k sample_fields)
  have "UpsertProductReview sample_columns (incoming_review\<lparr>ReviewID := ''r2''\<rparr>) s7 = Inr s7 \<and>
        review_rows sample_columns ''r2'' s7 =
           [\<lparr>ReviewID = ''r2'', ProductName = ''P'', Username = ''A'', Rating = 5, Remarks = ''good'', CreatedAt_r = 200, UpdatedAt_r = 300\<rparr>]"
    using N[THEN c(2), THEN c(2), THEN c(2), THEN c(1), rule_format, of s7] s7
    by (auto simp: k v incoming_review_def intro!: ProductReview.equality)
  with s7 have a7: "\<exists>s'. UpsertProductReview sample_columns (incoming_review\<lparr>ReviewID := ''r2''\<rparr>) sample_db = Inr s' \<and>
         UpsertProductReview sample_columns (incoming_review\<lparr>ReviewID := ''r2''\<rparr>) s' = Inr s' \<and>
         review_rows sample_columns ''r2'' s' =
           [\<lparr>ReviewID = ''r2'', ProductName = ''P'', Username = ''A'', Rating = 5, Remarks = ''good'', CreatedAt_r = 200, UpdatedAt_r = 300\<rparr>]"
    by (intro exI[of _ s7]) simp
  from sample_db_ok a1 a2 a3 a4 a5 a6 a7 show ?thesis by (intro conjI)
qed

section \<open>The update branch leaves \<open>created_at\<close> alone (C10)\<close>

text \<open>
  Claim C10. For a User, Order or ProductReview whose key already has a stored row, a
  successful upsert leaves exactly that row with only the mutable columns overwritten
  (name and email; user_id, total and status; product_name, username, rating and remarks;
  and updated_at in each) by the record's fields as their columns store them, so the
  stored \<open>created_at\<close> is the old one; and the incoming record's \<open>CreatedAt\<close> plays no
  part: with any other value \<open>t\<close> in its place the upsert returns the same store.
\<close>

theorem update_keeps_created_at:
  assumes "schema_ok C s"
  shows
    "(\<forall>r0 s'. r0 \<in> set (users s) \<and> collate C (UserID r0) = collate C (UserID usr) \<and>
          UpsertUser C usr s = Inr s' \<longrightarrow>
        (\<exists>n e u. to_varchar C 255 (Name usr) = Some n \<and> to_varchar C 255 (Email usr) = Some e \<and>
           to_datetime2 C (UpdatedAt usr) = Some u \<and>
           user_rows C (UserID usr) s' = [r0\<lparr>Name := n, Email := e, UpdatedAt := u\<rparr>]) \<and>
        map CreatedAt (user_rows C (UserID usr) s') = [CreatedAt r0] \<and>
        UpsertUser C (usr\<lparr>CreatedAt := t\<rparr>) s = Inr s') \<and>
     (\<forall>r0 s'. r0 \<in> set (orders s) \<and> collate C (OrderID r0) = collate C (OrderID ord) \<and>
          UpsertOrder C ord s = Inr s' \<longrightarrow>
        (\<exists>w a st u. to_varchar C 100 (UserID_o ord) = Some w \<and> to_decimal C (Total ord) = Some a \<and>
           to_varchar C 50 (Status ord) = Some st \<and> to_datetime2 C (UpdatedAt_o ord) = Some u \<and>
           order_rows C (OrderID ord) s' =
             [r0\<lparr>UserID_o := w, Total := a, Status := st, UpdatedAt_o := u\<rparr>]) \<and>
        map CreatedAt_o (order_rows C (OrderID ord) s') = [CreatedAt_o r0] \<and>
        UpsertOrder C (ord\<lparr>CreatedAt_o := t\<rparr>) s = Inr s') \<and>
     (\<forall>r0 s'. r0 \<in> set (product_reviews s) \<and> collate C (ReviewID r0) = collate C (ReviewID rvw) \<and>
          UpsertProductReview C rvw s = Inr s' \<longrightarrow>
        (\<exists>p n m u. to_varchar C 255 (ProductName rvw) = Some p \<and>
           to_varchar C 255 (Username rvw) = Some n \<and> to_text C (Remarks rvw) = Some m \<and>
           to_datetime2 C (UpdatedAt_r rvw) = Some u \<and>
           review_rows C (ReviewID rvw) s' =
             [r0\<lparr>ProductName := p, Username := n, Rating := Rating rvw, Remarks := m,
                 UpdatedAt_r := u\<rparr>]) \<and>
        map CreatedAt_r (review_rows C (ReviewID rvw) s') = [CreatedAt_r r0] \<and>
        UpsertProductReview C (rvw\<lparr>CreatedAt_r := t\<rparr>) s = Inr s')"
proof -
  from assms have d: "distinct (map (\<lambda>r. collate C (UserID r)) (users s))"
    "distinct (map (\<lambda>r. collate C (OrderID r)) (orders s))"
    "distinct (map (\<lambda>r. collate C (ReviewID r)) (product_reviews s))"
    by (simp_all add: schema_ok_def)
  have u: "(\<exists>n e u. to_varchar C 255 (Name usr) = Some n \<and> to_varchar C 255 (Email usr) = Some e \<and>
           to_datetime2 C (UpdatedAt usr) = Some u \<and>
           user_rows C (UserID usr) s' = [r0\<lparr>Name := n, Email := e, UpdatedAt := u\<rparr>]) \<and>
        map CreatedAt (user_rows C (UserID usr) s') = [CreatedAt r0] \<and>
        UpsertUser C (usr\<lparr>CreatedAt := t\<rparr>) s = Inr s'"
    if h: "r0 \<in> set (users s)" "collate C (UserID r0) = collate C (UserID usr)"
      "UpsertUser C usr s = Inr s'" for r0 s'
  proof -
    from h(1,2) have ex: "\<exists>r \<in> set (users s). collate C (UserID r) = collate C (UserID usr)"
      by auto
    from UpsertUser_present[OF d(1) h] obtain v where v: "user_set C usr = Some v"
      "user_rows C (UserID usr) s' =
         [r0\<lparr>Name := Name v, Email := Email v, UpdatedAt := UpdatedAt v\<rparr>]" by blast
    from v(2) have "map CreatedAt (user_rows C (UserID usr) s') = [CreatedAt r0]" by simp
    with v(2) user_set_fields[OF v(1)] UpsertUser_CreatedAt[OF ex, of t] h(3)
    show ?thesis by simp
  qed
  have o: "(\<exists>w a st u. to_varchar C 100 (UserID_o ord) = Some w \<and> to_decimal C (Total ord) = Some a \<and>
           to_varchar C 50 (Status ord) = Some st \<and> to_datetime2 C (UpdatedAt_o ord) = Some u \<and>
           order_rows C (OrderID ord) s' =
             [r0\<lparr>UserID_o := w, Total := a, Status := st, UpdatedAt_o := u\<rparr>]) \<and>
        map CreatedAt_o (order_rows C (OrderID ord) s') = [CreatedAt_o r0] \<and>
        UpsertOrder C (ord\<lparr>CreatedAt_o := t\<rparr>) s = Inr s'"
    if h: "r0 \<in> set (orders s)" "collate C (OrderID r0) = collate C (OrderID ord)"
      "UpsertOrder C ord s = Inr s'" for r0 s'
  proof -
    from h(1,2) have ex: "\<exists>r \<in> set (orders s). collate C (OrderID r) = collate C (OrderID ord)"
      by auto
    from UpsertOrder_present[OF d(2) h] obtain v where v: "order_set C ord = Some v"
      "order_rows C (OrderID ord) s' =
         [r0\<lparr>UserID_o := UserID_o v, Total := Total v, Status := Status v,
             UpdatedAt_o := UpdatedAt_o v\<rparr>]" by blast
    from v(2) have "map CreatedAt_o (order_rows C (OrderID ord) s') = [CreatedAt_o r0]" by simp
    with v(2) order_set_fields[OF v(1)] UpsertOrder_CreatedAt[OF ex, of t] h(3)
    show ?thesis by simp
  qed
  have r: "(\<exists>p n m u. to_varchar C 255 (ProductName rvw) = Some p \<and>
           to_varchar C 255 (Username rvw) = Some n \<and> to_text C (Remarks rvw) = Some m \<and>
           to_datetime2 C (UpdatedAt_r rvw) = Some u \<and>
           review_rows C (ReviewID rvw) s' =
             [r0\<lparr>ProductName := p, Username := n, Rating := Rating rvw, Remarks := m,
                 UpdatedAt_r := u\<rparr>]) \<and>
        map CreatedAt_r (review_rows C (ReviewID rvw) s') = [CreatedAt_r r0] \<and>
        UpsertProductReview C (rvw\<lparr>CreatedAt_r := t\<rparr>) s = Inr s'"
    if h: "r0 \<in> set (product_reviews s)" "collate C (ReviewID r0) = collate C (ReviewID rvw)"
      "UpsertProductReview C rvw s = Inr s'" for r0 s'
  proof -
    from h(1,2)
    have ex: "\<exists>r \<in> set (product_reviews s). collate C (ReviewID r) = collate C (ReviewID rvw)"
      by auto
    from UpsertProductReview_present[OF d(3) h] obtain v where v: "review_set C rvw = Some v"
      "review_rows C (ReviewID rvw) s' =
         [r0\<lparr>ProductName := ProductName v, Username := Username v, Rating := Rating v,
             Remarks := Remarks v, UpdatedAt_r := UpdatedAt_r v\<rparr>]" by blast
    from v(2) have "map CreatedAt_r (review_rows C (ReviewID rvw) s') = [CreatedAt_r r0]" by simp
    with v(2) review_set_fields[OF v(1)] UpsertProductReview_CreatedAt[OF ex, of t] h(3)
    show ?thesis by simp
  qed
  from u o r show ?thesis by blast
qed

theorem update_keeps_created_at_witness:
  "schema_ok sample_columns sample_db \<and>
   (\<exists>s'. UpsertUser sample_columns (incoming_user\<lparr>UpdatedAt := 399\<rparr>) sample_db = Inr s' \<and>
         user_rows sample_columns ''u1'' s' =
           [\<lparr>UserID = ''u1'', Name = ''B'', Email = ''b@x.com'', CreatedAt = 100,
             UpdatedAt = 300\<rparr>] \<and>
         map CreatedAt (user_rows sample_columns ''u1'' s') = [100] \<and>
         UpsertUser sample_columns (incoming_user\<lparr>UpdatedAt := 399, CreatedAt := 900\<rparr>) sample_db
           = Inr s') \<and>
   (\<exists>s'. UpsertOrder sample_columns (incoming_order\<lparr>Total := 1999 / 200\<rparr>) sample_db = Inr s' \<and>
         order_rows sample_columns ''o1'' s' =
           [\<lparr>OrderID = ''o1'', UserID_o = ''u1'', Total = 10, Status = ''placed'',
             CreatedAt_o = 100, UpdatedAt_o = 300\<rparr>] \<and>
         map CreatedAt_o (order_rows sample_columns ''o1'' s') = [100] \<and>
         UpsertOrder sample_columns (incoming_order\<lparr>Total := 1999 / 200, CreatedAt_o := 900\<rparr>)
           sample_db = Inr s') \<and>
   (\<exists>s'. UpsertProductReview sample_columns incoming_review sample_db = Inr s' \<and>
         review_rows sample_columns ''r1'' s' = [incoming_review\<lparr>CreatedAt_r := 100\<rparr>] \<and>
         map CreatedAt_r (review_rows sample_columns ''r1'' s') = [100] \<and>
         UpsertProductReview sample_columns (incoming_review\<lparr>CreatedAt_r := 900\<rparr>) sample_db
           = Inr s')"
proof -
  note T = update_keeps_created_at[OF sample_db_ok, of "incoming_user\<lparr>UpdatedAt := 399\<rparr>" 900
      "incoming_order\<lparr>Total := 1999 / 200\<rparr>" incoming_review]
  note v = sample_varchar sample_datetime2_cut sample_decimal sample_decimal_more sample_text
  have vu: "user_values sample_columns (incoming_user\<lparr>UpdatedAt := 399\<rparr>)
      = Some (incoming_user\<lparr>UpdatedAt := 300\<rparr>)"
    by (simp add: user_values_def v incoming_user_def)
  have vo: "order_values sample_columns (incoming_order\<lparr>Total := 1999 / 200\<rparr>)
      = Some (incoming_order\<lparr>Total := 10\<rparr>)"
    by (simp add: order_values_def v incoming_order_def)
  obtain su where su: "UpsertUser sample_columns (incoming_user\<lparr>UpdatedAt := 399\<rparr>) sample_db = Inr su"
    using UpsertUser_succeeds[OF sample_db_facts(1) _ vu] by (auto simp: sample_fields sample_keys)
  obtain so where so: "UpsertOrder sample_columns (incoming_order\<lparr>Total := 1999 / 200\<rparr>) sample_db
      = Inr so"
    using UpsertOrder_succeeds[OF sample_db_facts(1) _ vo]
    by (auto simp: sample_fields sample_keys sample_db_facts)
  obtain sr where sr: "UpsertProductReview sample_columns incoming_review sample_db = Inr sr"
    using UpsertProductReview_succeeds[OF sample_db_facts(1) _ sample_values(4)]
    by (auto simp: sample_fields sample_keys sample_db_facts)
  have pu: "stored_user \<in> set (users sample_db) \<and>
            collate sample_columns (UserID stored_user)
              = collate sample_columns (UserID (incoming_user\<lparr>UpdatedAt := 399\<rparr>)) \<and>
            UpsertUser sample_columns (incoming_user\<lparr>UpdatedAt := 399\<rparr>) sample_db = Inr su"
    using su by (simp add: sample_db_def stored_user_def incoming_user_def)
  have po: "stored_order \<in> set (orders sample_db) \<and>
            collate sample_columns (OrderID stored_order)
              = collate sample_columns (OrderID (incoming_order\<lparr>Total := 1999 / 200\<rparr>)) \<and>
            UpsertOrder sample_columns (incoming_order\<lparr>Total := 1999 / 200\<rparr>) sample_db = Inr so"
    using so by (simp add: sample_db_def stored_order_def incoming_order_def)
  have pr: "stored_review \<in> set (product_reviews sample_db) \<and>
            collate sample_columns (ReviewID stored_review)
              = collate sample_columns (ReviewID incoming_review) \<and>
            UpsertProductReview sample_columns incoming_review sample_db = Inr sr"
    using sr by (simp add: sample_db_def stored_review_def incoming_review_def)
  have "user_rows sample_columns ''u1'' su =
           [\<lparr>UserID = ''u1'', Name = ''B'', Email = ''b@x.com'', CreatedAt = 100,
             UpdatedAt = 300\<rparr>] \<and>
        map CreatedAt (user_rows sample_columns ''u1'' su) = [100] \<and>
        UpsertUser sample_columns (incoming_user\<lparr>UpdatedAt := 399, CreatedAt := 900\<rparr>) sample_db
           = Inr su"
    using T[THEN conjunct1, rule_format, OF pu]
    by (auto simp: v incoming_user_def stored_user_def)
  with su have a: "\<exists>s'. UpsertUser sample_columns (incoming_user\<lparr>UpdatedAt := 399\<rparr>) sample_db = Inr s' \<and>
         user_rows sample_columns ''u1'' s' =
           [\<lparr>UserID = ''u1'', Name = ''B'', Email = ''b@x.com'', CreatedAt = 100,
             UpdatedAt = 300\<rparr>] \<and>
         map CreatedAt (user_rows sample_columns ''u1'' s') = [100] \<and>
         UpsertUser sample_columns (incoming_user\<lparr>UpdatedAt := 399, CreatedAt := 900\<rparr>) sample_db
           = Inr s'"
    by (intro exI[of _ su]) simp
  have "order_rows sample_columns ''o1'' so =
           [\<lparr>OrderID = ''o1'', UserID_o = ''u1'', Total = 10, Status = ''placed'',
             CreatedAt_o = 100, UpdatedAt_o = 300\<rparr>] \<and>
        map CreatedAt_o (order_rows sample_columns ''o1'' so) = [100] \<and>
        UpsertOrder sample_columns (incoming_order\<lparr>Total := 1999 / 200, CreatedAt_o := 900\<rparr>)
           sample_db = Inr so"
    using T[THEN conjunct2, THEN conjunct1, rule_format, OF po]
    by (auto simp: v incoming_order_def stored_order_def)
  with so have b: "\<exists>s'. UpsertOrder sample_columns (incoming_order\<lparr>Total := 1999 / 200\<rparr>) sample_db = Inr s' \<and>
         order_rows sample_columns ''o1'' s' =
           [\<lparr>OrderID = ''o1'', UserID_o = ''u1'', Total = 10, Status = ''placed'',
             CreatedAt_o = 100, UpdatedAt_o = 300\<rparr>] \<and>
         map CreatedAt_o (order_rows sample_columns ''o1'' s') = [100] \<and>
         UpsertOrder sample_columns (incoming_order\<lparr>Total := 1999 / 200, CreatedAt_o := 900\<rparr>)
           sample_db = Inr s'"
    by (intro exI[of _ so]) simp
  have "review_rows sample_columns ''r1'' sr = [incoming_review\<lparr>CreatedAt_r := 100\<rparr>] \<and>
        map CreatedAt_r (review_rows sample_columns ''r1'' sr) = [100] \<and>
        UpsertProductReview sample_columns (incoming_review\<lparr>CreatedAt_r := 900\<rparr>) sample_db = Inr sr"
    using T[THEN conjunct2, THEN conjunct2, rule_format, OF pr]
    by (auto simp: v incoming_review_def stored_review_def)
  with sr have c: "\<exists>s'. UpsertProductReview sample_columns incoming_review sample_db = Inr s' \<and>
         review_rows sample_columns ''r1'' s' = [incoming_review\<lparr>CreatedAt_r := 100\<rparr>] \<and>
         map CreatedAt_r (review_rows sample_columns ''r1'' s') = [100] \<and>
         UpsertProductReview sample_columns (incoming_review\<lparr>CreatedAt_r := 900\<rparr>) sample_db
           = Inr s'"
    by (intro exI[of _ sr]) simp
  from sample_db_ok a b c show ?thesis by (intro conjI)
qed

section \<open>Stored ratings stay within 1 to 5 (C9)\<close>

text \<open>
  Claim C9. If every stored ProductReview has a rating from 1 to 5, then so has every
  stored review after any successful \<open>UpsertProductReview\<close>; and an upsert of a review
  whose rating is outside that range fails, storing no row.
\<close>

theorem review_rating_invariant:
  assumes "ratings_in_range s"
  shows "(\<forall>s'. UpsertProductReview C rvw s = Inr s' \<longrightarrow> ratings_in_range s') \<and>
         (\<not> (1 \<le> Rating rvw \<and> Rating rvw \<le> 5) \<longrightarrow> (\<exists>e. UpsertProductReview C rvw s = Inl e))"
proof -
  have "ratings_in_range s'" if h: "UpsertProductReview C rvw s = Inr s'" for s'
  proof -
    from UpsertProductReview_cases[OF h] have chk: "1 \<le> Rating rvw" "Rating rvw \<le> 5"
      and s': "(\<exists>v. review_set C rvw = Some v \<and>
        s' = s\<lparr>product_reviews := map (\<lambda>r. if collate C (ReviewID r) = collate C (ReviewID rvw)
        then r\<lparr>ProductName := ProductName v, Username := Username v, Rating := Rating v,
               Remarks := Remarks v, UpdatedAt_r := UpdatedAt_r v\<rparr> else r)
          (product_reviews s)\<rparr>) \<or>
        (\<exists>row. review_values C rvw = Some row \<and>
           s' = s\<lparr>product_reviews := product_reviews s @ [row]\<rparr>)"
      by (auto split: if_splits)
    from s' show ?thesis
    proof
      assume "\<exists>row. review_values C rvw = Some row \<and>
           s' = s\<lparr>product_reviews := product_reviews s @ [row]\<rparr>"
      then obtain row where row: "review_values C rvw = Some row"
        "s' = s\<lparr>product_reviews := product_reviews s @ [row]\<rparr>" by blast
      from review_values_Some(2)[OF row(1)] have "Rating row = Rating rvw" .
      with assms chk row(2) show ?thesis by (simp add: ratings_in_range_def)
    next
      assume "\<exists>v. review_set C rvw = Some v \<and>
        s' = s\<lparr>product_reviews := map (\<lambda>r. if collate C (ReviewID r) = collate C (ReviewID rvw)
        then r\<lparr>ProductName := ProductName v, Username := Username v, Rating := Rating v,
               Remarks := Remarks v, UpdatedAt_r := UpdatedAt_r v\<rparr> else r)
          (product_reviews s)\<rparr>"
      then obtain v where v: "review_set C rvw = Some v"
        "s' = s\<lparr>product_reviews := map (\<lambda>r. if collate C (ReviewID r) = collate C (ReviewID rvw)
        then r\<lparr>ProductName := ProductName v, Username := Username v, Rating := Rating v,
               Remarks := Remarks v, UpdatedAt_r := UpdatedAt_r v\<rparr> else r)
          (product_reviews s)\<rparr>" by blast
      from v(1) have "Rating v = Rating rvw"
        by (auto simp: review_set_def split: option.splits)
      with assms chk v(2) show ?thesis by (auto simp add: ratings_in_range_def list_all_iff)
    qed
  qed
  moreover have "\<exists>e. UpsertProductReview C rvw s = Inl e" if "\<not> (1 \<le> Rating rvw \<and> Rating rvw \<le> 5)"
    using that by (simp add: UpsertProductReview_def)
  ultimately show ?thesis by blast
qed

theorem review_rating_invariant_witness:
  "ratings_in_range sample_db \<and>
   (\<exists>s'. UpsertProductReview sample_columns incoming_review sample_db = Inr s' \<and>
         ratings_in_range s') \<and>
   \<not> (1 \<le> Rating (incoming_review\<lparr>Rating := 7\<rparr>) \<and> Rating (incoming_review\<lparr>Rating := 7\<rparr>) \<le> 5) \<and>
   (\<exists>e. UpsertProductReview sample_columns (incoming_review\<lparr>Rating := 7\<rparr>) sample_db = Inl e)"
proof -
  have ok: "ratings_in_range sample_db"
    by (simp add: ratings_in_range_def sample_db_def stored_review_def)
  obtain sr where sr: "UpsertProductReview sample_columns incoming_review sample_db = Inr sr"
    using UpsertProductReview_succeeds[OF sample_db_facts(1) _ sample_values(4)]
    by (auto simp: sample_fields sample_keys sample_db_facts)
  have bad: "\<not> (1 \<le> Rating (incoming_review\<lparr>Rating := 7\<rparr>) \<and> Rating (incoming_review\<lparr>Rating := 7\<rparr>) \<le> 5)"
    by simp
  have "ratings_in_range sr"
    using review_rating_invariant[OF ok, of sample_columns incoming_review, THEN conjunct1,
        rule_format, OF sr] .
  with sr have a: "\<exists>s'. UpsertProductReview sample_columns incoming_review sample_db = Inr s' \<and>
      ratings_in_range s'"
    by (intro exI[of _ sr]) simp
  have b: "\<exists>e. UpsertProductReview sample_columns (incoming_review\<lparr>Rating := 7\<rparr>) sample_db = Inl e"
    using review_rating_invariant[OF ok, of sample_columns "incoming_review\<lparr>Rating := 7\<rparr>",
        THEN conjunct2, rule_format, OF bad] .
  from ok a bad b show ?thesis by (intro conjI)
qed

section \<open>Inventory adjustments add up (C4)\<close>

lemma overflow_guard:
  assumes "distinct (map key rows)" "r0 \<in> set rows" "key r0 = k"
  shows "(\<exists>r \<in> set rows. key r = k \<and> \<not> sql_int (Quantity r + d)) = (\<not> sql_int (Quantity r0 + d))"
proof -
  have "r = r0" if "r \<in> set rows" "key r = k" for r
    using assms that by (metis distinct_map inj_onD)
  with assms(2,3) show ?thesis by blast
qed

lemma inventory_set_cases:
  "inventory_set C item =
     (case to_datetime2 C (LastAdjustedAt item) of None \<Rightarrow> None
      | Some t \<Rightarrow> Some (item\<lparr>LastAdjustedAt := t\<rparr>))"
  by (simp add: inventory_set_def)

lemma inventory_values_Some:
  assumes "inventory_values C item = Some row"
  shows "to_varchar C 100 (SKU item) = Some (SKU row)" and "Quantity row = Quantity item"
    and "to_datetime2 C (LastAdjustedAt item) = Some (LastAdjustedAt row)"
  using assms by (auto simp: inventory_values_def split: option.splits)

lemma UpsertInventory_present:
  assumes "distinct (map (\<lambda>r. collate C (SKU r)) (inventory s))" "r0 \<in> set (inventory s)"
    "collate C (SKU r0) = collate C (SKU item)" and "online s"
  shows "if sql_int (Quantity r0 + Quantity item)
         then (case to_datetime2 C (LastAdjustedAt item) of
                 None \<Rightarrow> UpsertInventory C item s = Inl (SqlError ValueRefused)
               | Some t \<Rightarrow>
                   \<exists>s'. UpsertInventory C item s = Inr s' \<and>
                     distinct (map (\<lambda>r. collate C (SKU r)) (inventory s')) \<and> online s' \<and>
                     inventory_rows C (SKU item) s' =
                       [r0\<lparr>Quantity := Quantity r0 + Quantity item, LastAdjustedAt := t\<rparr>])
         else UpsertInventory C item s = Inl (SqlError ArithmeticOverflow)"
proof -
  let ?key = "\<lambda>r. collate C (SKU r)"
  from assms(2,3) have ex: "\<exists>r \<in> set (inventory s). ?key r = collate C (SKU item)" by auto
  note guard = overflow_guard[of ?key, OF assms(1,2,3), of "Quantity item"]
  show ?thesis
  proof (cases "sql_int (Quantity r0 + Quantity item)")
    case True
    with guard have ng: "\<not> (\<exists>r \<in> set (inventory s). ?key r = collate C (SKU item) \<and>
        \<not> sql_int (Quantity r + Quantity item))" by simp
    show ?thesis
    proof (cases "to_datetime2 C (LastAdjustedAt item)")
      case None
      then have "UpsertInventory C item s = Inl (SqlError ValueRefused)"
        unfolding UpsertInventory_def using assms(4) ex ng by (simp add: inventory_set_cases)
      with True None show ?thesis by simp
    next
      case (Some t)
      let ?f = "\<lambda>r. r\<lparr>Quantity := Quantity r + Quantity item, LastAdjustedAt := t\<rparr>"
      let ?g = "\<lambda>r. if ?key r = collate C (SKU item) then ?f r else r"
      have key: "\<And>r. ?key (?f r) = ?key r" by simp
      have res: "UpsertInventory C item s = Inr (s\<lparr>inventory := map ?g (inventory s)\<rparr>)"
        unfolding UpsertInventory_def using assms(4) ex ng Some
        by (simp add: inventory_set_cases)
      have rows: "filter (\<lambda>r. ?key r = collate C (SKU item)) (map ?g (inventory s)) = [?f r0]"
        using assms(1,2,3) key by (rule filter_key_update)
      have keys: "map ?key (map ?g (inventory s)) = map ?key (inventory s)"
        using key by (rule map_key_update)
      have d': "distinct (map ?key (map ?g (inventory s)))"
        using assms(1) by (simp only: keys)
      define s1 where "s1 = s\<lparr>inventory := map ?g (inventory s)\<rparr>"
      have sel: "inventory s1 = map ?g (inventory s)" "online s1 = online s"
        by (simp_all add: s1_def)
      have c1: "UpsertInventory C item s = Inr s1"
        using res by (simp only: s1_def)
      have c2: "distinct (map ?key (inventory s1))"
        using d' by (simp only: sel)
      have c3: "online s1"
        using assms(4) by (simp only: sel)
      have c4: "inventory_rows C (SKU item) s1 = [?f r0]"
        using rows by (simp only: inventory_rows_def sel)
      from c1 c2 c3 c4
      have "\<exists>s'. UpsertInventory C item s = Inr s' \<and>
                distinct (map ?key (inventory s')) \<and> online s' \<and>
                inventory_rows C (SKU item) s' = [?f r0]"
        by blast
      with True Some show ?thesis by simp
    qed
  next
    case False
    with guard have g: "\<exists>r \<in> set (inventory s). ?key r = collate C (SKU item) \<and>
        \<not> sql_int (Quantity r + Quantity item)" by simp
    have "UpsertInventory C item s = Inl (SqlError ArithmeticOverflow)"
      unfolding UpsertInventory_def using assms(4) ex g by simp
    with False show ?thesis by simp
  qed
qed

lemma UpsertInventory_absent:
  assumes "distinct (map (\<lambda>r. collate C (SKU r)) (inventory s))"
    "collate C (SKU item) \<notin> (\<lambda>r. collate C (SKU r)) ` set (inventory s)" and "online s"
    and "key_kept C (SKU item)"
  shows "if sql_int (Quantity item)
         then (case inventory_values C item of
                 None \<Rightarrow> UpsertInventory C item s = Inl (SqlError ValueRefused)
               | Some row \<Rightarrow>
                   \<exists>s'. UpsertInventory C item s = Inr s' \<and>
                     distinct (map (\<lambda>r. collate C (SKU r)) (inventory s')) \<and> online s' \<and>
                     inventory_rows C (SKU item) s' = [row])
         else UpsertInventory C item s = Inl (SqlError ArithmeticOverflow)"
proof -
  let ?key = "\<lambda>r. collate C (SKU r)"
  from assms(2) have nex: "\<not> (\<exists>r \<in> set (inventory s). ?key r = collate C (SKU item))"
    by (auto simp: image_iff)
  show ?thesis
  proof (cases "inventory_values C item")
    case None
    then show ?thesis
      unfolding UpsertInventory_def using assms(3) nex by simp
  next
    case (Some row)
    from assms(4) inventory_values_Some(1)[OF Some]
    have k: "collate C (SKU row) = collate C (SKU item)" by (simp add: key_kept_def)
    have none: "filter (\<lambda>r. ?key r = collate C (SKU item)) (inventory s) = []"
      using assms(2) by (rule filter_key_absent)
    show ?thesis
      unfolding UpsertInventory_def inventory_rows_def using assms(1,2,3) nex Some k none
      by simp
  qed
qed

lemma UpsertInventory_online: "UpsertInventory C item s = Inr s' \<Longrightarrow> online s"
  by (simp add: UpsertInventory_def split: if_splits)

lemma UpsertInventory_present_ok:
  assumes "distinct (map (\<lambda>r. collate C (SKU r)) (inventory s))" "r0 \<in> set (inventory s)"
    "collate C (SKU r0) = collate C (SKU item)" and "UpsertInventory C item s = Inr s'"
  shows "\<exists>t. inventory_rows C (SKU item) s' =
           [r0\<lparr>Quantity := Quantity r0 + Quantity item, LastAdjustedAt := t\<rparr>]"
    and "distinct (map (\<lambda>r. collate C (SKU r)) (inventory s'))"
proof -
  note p = UpsertInventory_present[OF assms(1,2,3) UpsertInventory_online[OF assms(4)]]
  have r: "sql_int (Quantity r0 + Quantity item)"
  proof (rule ccontr)
    assume "\<not> sql_int (Quantity r0 + Quantity item)"
    with p have "UpsertInventory C item s = Inl (SqlError ArithmeticOverflow)" by simp
    with assms(4) show False by simp
  qed
  obtain t where t: "to_datetime2 C (LastAdjustedAt item) = Some t"
  proof (cases "to_datetime2 C (LastAdjustedAt item)")
    case None
    with p r have "UpsertInventory C item s = Inl (SqlError ValueRefused)" by simp
    with assms(4) show ?thesis by simp
  next
    case (Some t)
    then show ?thesis by (rule that)
  qed
  with p r obtain s'' where s'': "UpsertInventory C item s = Inr s''"
    "distinct (map (\<lambda>r. collate C (SKU r)) (inventory s''))"
    "inventory_rows C (SKU item) s'' =
       [r0\<lparr>Quantity := Quantity r0 + Quantity item, LastAdjustedAt := t\<rparr>]"
    by auto
  from s''(1) assms(4) have "s'' = s'" by simp
  with s'' show "\<exists>t. inventory_rows C (SKU item) s' =
           [r0\<lparr>Quantity := Quantity r0 + Quantity item, LastAdjustedAt := t\<rparr>]"
    and "distinct (map (\<lambda>r. collate C (SKU r)) (inventory s'))" by auto
qed

lemma UpsertInventory_absent_ok:
  assumes "distinct (map (\<lambda>r. collate C (SKU r)) (inventory s))"
    "collate C (SKU item) \<notin> (\<lambda>r. collate C (SKU r)) ` set (inventory s)"
    and "key_kept C (SKU item)" and "UpsertInventory C item s = Inr s'"
  shows "\<exists>row. inventory_rows C (SKU item) s' = [row] \<and> Quantity row = Quantity item"
    and "distinct (map (\<lambda>r. collate C (SKU r)) (inventory s'))"
proof -
  note p = UpsertInventory_absent[OF assms(1,2) UpsertInventory_online[OF assms(4)] assms(3)]
  have r: "sql_int (Quantity item)"
  proof (rule ccontr)
    assume "\<not> sql_int (Quantity item)"
    with p have "UpsertInventory C item s = Inl (SqlError ArithmeticOverflow)" by simp
    with assms(4) show False by simp
  qed
  obtain row where row: "inventory_values C item = Some row"
  proof (cases "inventory_values C item")
    case None
    with p r have "UpsertInventory C item s = Inl (SqlError ValueRefused)" by simp
    with assms(4) show ?thesis by simp
  next
    case (Some row)
    then show ?thesis by (rule that)
  qed
  with p r obtain s'' where s'': "UpsertInventory C item s = Inr s''"
    "distinct (map (\<lambda>r. collate C (SKU r)) (inventory s''))"
    "inventory_rows C (SKU item) s'' = [row]"
    by auto
  from s''(1) assms(4) have "s'' = s'" by simp
  with s'' inventory_values_Some(2)[OF row]
  show "\<exists>row. inventory_rows C (SKU item) s' = [row] \<and> Quantity row = Quantity item"
    and "distinct (map (\<lambda>r. collate C (SKU r)) (inventory s'))" by auto
qed

lemma inventory_rows_single:
  "inventory_rows C k s = [x] \<Longrightarrow> x \<in> set (inventory s) \<and> collate C (SKU x) = collate C k"
proof -
  assume a: "inventory_rows C k s = [x]"
  have "x \<in> set (filter (\<lambda>r. collate C (SKU r) = collate C k) (inventory s))"
    using a by (simp add: inventory_rows_def)
  then show ?thesis by simp
qed

lemma inventory_rows_collate:
  "collate C k = collate C k' \<Longrightarrow> inventory_rows C k s = inventory_rows C k' s"
  by (simp add: inventory_rows_def)

lemma UpsertInventory_second_step:
  assumes "distinct (map (\<lambda>r. collate C (SKU r)) (inventory s1))"
    "inventory_rows C (SKU a) s1 = [r1]" "collate C (SKU b) = collate C (SKU a)"
    "UpsertInventory C b s1 = Inr s2"
  shows "map Quantity (inventory_rows C (SKU a) s2) = [Quantity r1 + Quantity b]"
proof -
  from inventory_rows_single[OF assms(2)] assms(3)
  have r1: "r1 \<in> set (inventory s1)" "collate C (SKU r1) = collate C (SKU b)" by simp_all
  from UpsertInventory_present_ok(1)[OF assms(1) r1 assms(4)]
  obtain t where "inventory_rows C (SKU b) s2 =
      [r1\<lparr>Quantity := Quantity r1 + Quantity b, LastAdjustedAt := t\<rparr>]" by blast
  then have "inventory_rows C (SKU a) s2 =
      [r1\<lparr>Quantity := Quantity r1 + Quantity b, LastAdjustedAt := t\<rparr>]"
    by (simp only: inventory_rows_collate[OF assms(3), of s2])
  then show ?thesis by simp
qed

lemma UpsertInventory_two_steps:
  assumes "distinct (map (\<lambda>r. collate C (SKU r)) (inventory s))" "r0 \<in> set (inventory s)"
    "collate C (SKU r0) = collate C (SKU a)" "collate C (SKU b) = collate C (SKU a)"
    "UpsertInventory C a s = Inr s1" "UpsertInventory C b s1 = Inr s2"
  shows "map Quantity (inventory_rows C (SKU a) s2) = [Quantity r0 + Quantity a + Quantity b]"
proof -
  note first = UpsertInventory_present_ok[OF assms(1,2,3,5)]
  from first(1) obtain t where t: "inventory_rows C (SKU a) s1 =
      [r0\<lparr>Quantity := Quantity r0 + Quantity a, LastAdjustedAt := t\<rparr>]" by blast
  from UpsertInventory_second_step[OF first(2) t assms(4,6)] show ?thesis by simp
qed

lemma UpsertInventory_two_steps_new:
  assumes "distinct (map (\<lambda>r. collate C (SKU r)) (inventory s))"
    "collate C (SKU a) \<notin> (\<lambda>r. collate C (SKU r)) ` set (inventory s)" "key_kept C (SKU a)"
    "collate C (SKU b) = collate C (SKU a)"
    "UpsertInventory C a s = Inr s1" "UpsertInventory C b s1 = Inr s2"
  shows "map Quantity (inventory_rows C (SKU a) s2) = [Quantity a + Quantity b]"
proof -
  note first = UpsertInventory_absent_ok[OF assms(1,2,3,5)]
  from first(1) obtain row where row: "inventory_rows C (SKU a) s1 = [row]"
    "Quantity row = Quantity a" by blast
  from UpsertInventory_second_step[OF first(2) row(1) assms(4,6)] row(2) show ?thesis by simp
qed

text \<open>
  Claim C4 says that \<open>UpsertInventory\<close> adds the incoming delta to the stored quantity
  of an existing sku, and inserts a new sku with the delta as its quantity. As stated,
  for every delta, it fails at the limits of the \<open>INT\<close> column: the statement is refused
  with an arithmetic overflow and the row is left as it was. Here the stored quantity is
  the largest \<open>INT\<close> and the delta is 5; and a new sku arrives with a delta of
  3000000000.
\<close>

theorem inventory_upsert_counterexample:
  "schema_ok sample_columns (sample_db\<lparr>inventory := [stored_item\<lparr>Quantity := 2147483647\<rparr>]\<rparr>) \<and>
   UpsertInventory sample_columns adjust_plus5
       (sample_db\<lparr>inventory := [stored_item\<lparr>Quantity := 2147483647\<rparr>]\<rparr>)
     = Inl (SqlError ArithmeticOverflow) \<and>
   UpsertInventory sample_columns (adjust_plus5\<lparr>SKU := ''S2'', Quantity := 3000000000\<rparr>) sample_db
     = Inl (SqlError ArithmeticOverflow)"
  by (simp add: schema_ok_def UpsertInventory_def sample_db_def stored_item_def adjust_plus5_def
      stored_user_def stored_order_def stored_review_def sql_int_def user_known_def
      sample_collate trim_right_def)

text \<open>
  Claim C4, as amended. With the server reachable and a store that satisfies the schema:
  for a sku that equals that of a stored row, \<open>UpsertInventory\<close> leaves exactly that row
  with the old quantity plus the delta, and the adjustment time as \<open>DATETIME2\<close> stores it,
  provided the sum fits the \<open>INT\<close> column and the time is storable, and fails otherwise;
  for a new sku that its column keeps, it inserts the sku as \<open>VARCHAR(100)\<close> stores it
  with the delta as quantity and the time as stored, provided the delta fits \<open>INT\<close> and
  the sku and the time are storable, and fails otherwise. Hence two successful
  adjustments of 5 and -2 of the same sku leave the initial quantity plus 3, or 3 for a
  new sku, and the same adjustment applied successfully twice leaves the initial quantity
  plus twice the delta, or twice the delta for a new sku.
\<close>

theorem inventory_upsert_adds:
  assumes "schema_ok C s" and "online s"
  shows
    "(\<forall>r0. r0 \<in> set (inventory s) \<and> collate C (SKU r0) = collate C (SKU item) \<longrightarrow>
        (if sql_int (Quantity r0 + Quantity item) \<and> to_datetime2 C (LastAdjustedAt item) \<noteq> None
         then \<exists>s' t. UpsertInventory C item s = Inr s' \<and>
                to_datetime2 C (LastAdjustedAt item) = Some t \<and>
                inventory_rows C (SKU item) s' =
                  [r0\<lparr>Quantity := Quantity r0 + Quantity item, LastAdjustedAt := t\<rparr>]
         else \<exists>e. UpsertInventory C item s = Inl e)) \<and>
     (\<not> (\<exists>r \<in> set (inventory s). collate C (SKU r) = collate C (SKU item)) \<and>
      key_kept C (SKU item) \<longrightarrow>
        (if sql_int (Quantity item) \<and> to_varchar C 100 (SKU item) \<noteq> None \<and>
            to_datetime2 C (LastAdjustedAt item) \<noteq> None
         then \<exists>s' k t. UpsertInventory C item s = Inr s' \<and>
                to_varchar C 100 (SKU item) = Some k \<and>
                to_datetime2 C (LastAdjustedAt item) = Some t \<and>
                inventory_rows C (SKU item) s' =
                  [\<lparr>SKU = k, Quantity = Quantity item, LastAdjustedAt = t\<rparr>]
         else \<exists>e. UpsertInventory C item s = Inl e)) \<and>
     (\<forall>r0 a b s1 s2.
        r0 \<in> set (inventory s) \<and> collate C (SKU r0) = collate C (SKU a) \<and>
        collate C (SKU b) = collate C (SKU a) \<and> Quantity a = 5 \<and> Quantity b = - 2 \<and>
        UpsertInventory C a s = Inr s1 \<and> UpsertInventory C b s1 = Inr s2 \<longrightarrow>
        map Quantity (inventory_rows C (SKU a) s2) = [Quantity r0 + 3]) \<and>
     (\<forall>r0 a s1 s2.
        r0 \<in> set (inventory s) \<and> collate C (SKU r0) = collate C (SKU a) \<and>
        UpsertInventory C a s = Inr s1 \<and> UpsertInventory C a s1 = Inr s2 \<longrightarrow>
        map Quantity (inventory_rows C (SKU a) s2) = [Quantity r0 + 2 * Quantity a]) \<and>
     (\<forall>a b s1 s2.
        \<not> (\<exists>r \<in> set (inventory s). collate C (SKU r) = collate C (SKU a)) \<and>
        key_kept C (SKU a) \<and>
        collate C (SKU b) = collate C (SKU a) \<and> Quantity a = 5 \<and> Quantity b = - 2 \<and>
        UpsertInventory C a s = Inr s1 \<and> UpsertInventory C b s1 = Inr s2 \<longrightarrow>
        map Quantity (inventory_rows C (SKU a) s2) = [3]) \<and>
     (\<forall>a s1 s2.
        \<not> (\<exists>r \<in> set (inventory s). collate C (SKU r) = collate C (SKU a)) \<and>
        key_kept C (SKU a) \<and>
        UpsertInventory C a s = Inr s1 \<and> UpsertInventory C a s1 = Inr s2 \<longrightarrow>
        map Quantity (inventory_rows C (SKU a) s2) = [2 * Quantity a])"
proof -
  from assms(1) have d: "distinct (map (\<lambda>r. collate C (SKU r)) (inventory s))"
    by (simp add: schema_ok_def)
  have absent: "collate C (SKU x) \<notin> (\<lambda>r. collate C (SKU r)) ` set (inventory s)"
    if "\<not> (\<exists>r \<in> set (inventory s). collate C (SKU r) = collate C (SKU x))" for x
    using that by (auto simp: image_iff)
  have p1: "\<forall>r0. r0 \<in> set (inventory s) \<and> collate C (SKU r0) = collate C (SKU item) \<longrightarrow>
        (if sql_int (Quantity r0 + Quantity item) \<and> to_datetime2 C (LastAdjustedAt item) \<noteq> None
         then \<exists>s' t. UpsertInventory C item s = Inr s' \<and>
                to_datetime2 C (LastAdjustedAt item) = Some t \<and>
                inventory_rows C (SKU item) s' =
                  [r0\<lparr>Quantity := Quantity r0 + Quantity item, LastAdjustedAt := t\<rparr>]
         else \<exists>e. UpsertInventory C item s = Inl e)"
  proof (intro allI impI, elim conjE)
    fix r0 assume h: "r0 \<in> set (inventory s)" "collate C (SKU r0) = collate C (SKU item)"
    from UpsertInventory_present[OF d h assms(2)]
    show "if sql_int (Quantity r0 + Quantity item) \<and> to_datetime2 C (LastAdjustedAt item) \<noteq> None
         then \<exists>s' t. UpsertInventory C item s = Inr s' \<and>
                to_datetime2 C (LastAdjustedAt item) = Some t \<and>
                inventory_rows C (SKU item) s' =
                  [r0\<lparr>Quantity := Quantity r0 + Quantity item, LastAdjustedAt := t\<rparr>]
         else \<exists>e. UpsertInventory C item s = Inl e"
      by (auto split: if_splits option.splits)
  qed
  have p2: "\<not> (\<exists>r \<in> set (inventory s). collate C (SKU r) = collate C (SKU item)) \<and>
      key_kept C (SKU item) \<longrightarrow>
        (if sql_int (Quantity item) \<and> to_varchar C 100 (SKU item) \<noteq> None \<and>
            to_datetime2 C (LastAdjustedAt item) \<noteq> None
         then \<exists>s' k t. UpsertInventory C item s = Inr s' \<and>
                to_varchar C 100 (SKU item) = Some k \<and>
                to_datetime2 C (LastAdjustedAt item) = Some t \<and>
                inventory_rows C (SKU item) s' =
                  [\<lparr>SKU = k, Quantity = Quantity item, LastAdjustedAt = t\<rparr>]
         else \<exists>e. UpsertInventory C item s = Inl e)"
  proof (intro impI, elim conjE)
    assume h: "\<not> (\<exists>r \<in> set (inventory s). collate C (SKU r) = collate C (SKU item))"
      "key_kept C (SKU item)"
    from UpsertInventory_absent[OF d absent[OF h(1)] assms(2) h(2)]
    show "if sql_int (Quantity item) \<and> to_varchar C 100 (SKU item) \<noteq> None \<and>
            to_datetime2 C (LastAdjustedAt item) \<noteq> None
         then \<exists>s' k t. UpsertInventory C item s = Inr s' \<and>
                to_varchar C 100 (SKU item) = Some k \<and>
                to_datetime2 C (LastAdjustedAt item) = Some t \<and>
                inventory_rows C (SKU item) s' =
                  [\<lparr>SKU = k, Quantity = Quantity item, LastAdjustedAt = t\<rparr>]
         else \<exists>e. UpsertInventory C item s = Inl e"
      by (auto simp: inventory_values_def split: if_splits option.splits)
  qed
  have p3: "\<forall>r0 a b s1 s2.
        r0 \<in> set (inventory s) \<and> collate C (SKU r0) = collate C (SKU a) \<and>
        collate C (SKU b) = collate C (SKU a) \<and> Quantity a = 5 \<and> Quantity b = - 2 \<and>
        UpsertInventory C a s = Inr s1 \<and> UpsertInventory C b s1 = Inr s2 \<longrightarrow>
        map Quantity (inventory_rows C (SKU a) s2) = [Quantity r0 + 3]"
  proof (intro allI impI, elim conjE)
    fix r0 a b s1 s2
    assume h: "r0 \<in> set (inventory s)" "collate C (SKU r0) = collate C (SKU a)"
      "collate C (SKU b) = collate C (SKU a)" "Quantity a = 5" "Quantity b = - 2"
      "UpsertInventory C a s = Inr s1" "UpsertInventory C b s1 = Inr s2"
    from UpsertInventory_two_steps[OF d h(1,2,3,6,7)] h(4,5)
    show "map Quantity (inventory_rows C (SKU a) s2) = [Quantity r0 + 3]" by simp
  qed
  have p4: "\<forall>r0 a s1 s2.
        r0 \<in> set (inventory s) \<and> collate C (SKU r0) = collate C (SKU a) \<and>
        UpsertInventory C a s = Inr s1 \<and> UpsertInventory C a s1 = Inr s2 \<longrightarrow>
        map Quantity (inventory_rows C (SKU a) s2) = [Quantity r0 + 2 * Quantity a]"
  proof (intro allI impI, elim conjE)
    fix r0 a s1 s2
    assume h: "r0 \<in> set (inventory s)" "collate C (SKU r0) = collate C (SKU a)"
      "UpsertInventory C a s = Inr s1" "UpsertInventory C a s1 = Inr s2"
    from UpsertInventory_two_steps[OF d h(1,2) refl h(3,4)]
    show "map Quantity (inventory_rows C (SKU a) s2) = [Quantity r0 + 2 * Quantity a]" by simp
  qed
  have p5: "\<forall>a b s1 s2.
        \<not> (\<exists>r \<in> set (inventory s). collate C (SKU r) = collate C (SKU a)) \<and>
        key_kept C (SKU a) \<and>
        collate C (SKU b) = collate C (SKU a) \<and> Quantity a = 5 \<and> Quantity b = - 2 \<and>
        UpsertInventory C a s = Inr s1 \<and> UpsertInventory C b s1 = Inr s2 \<longrightarrow>
        map Quantity (inventory_rows C (SKU a) s2) = [3]"
  proof (intro allI impI, elim conjE)
    fix a b s1 s2
    assume h: "\<not> (\<exists>r \<in> set (inventory s). collate C (SKU r) = collate C (SKU a))"
      "key_kept C (SKU a)"
      "collate C (SKU b) = collate C (SKU a)" "Quantity a = 5" "Quantity b = - 2"
      "UpsertInventory C a s = Inr s1" "UpsertInventory C b s1 = Inr s2"
    from UpsertInventory_two_steps_new[OF d absent[OF h(1)] h(2,3,6,7)] h(4,5)
    show "map Quantity (inventory_rows C (SKU a) s2) = [3]" by simp
  qed
  have p6: "\<forall>a s1 s2.
        \<not> (\<exists>r \<in> set (inventory s). collate C (SKU r) = collate C (SKU a)) \<and>
        key_kept C (SKU a) \<and>
        UpsertInventory C a s = Inr s1 \<and> UpsertInventory C a s1 = Inr s2 \<longrightarrow>
        map Quantity (inventory_rows C (SKU a) s2) = [2 * Quantity a]"
  proof (intro allI impI, elim conjE)
    fix a s1 s2
    assume h: "\<not> (\<exists>r \<in> set (inventory s). collate C (SKU r) = collate C (SKU a))"
      "key_kept C (SKU a)"
      "UpsertInventory C a s = Inr s1" "UpsertInventory C a s1 = Inr s2"
    from UpsertInventory_two_steps_new[OF d absent[OF h(1)] h(2) refl h(3,4)]
    show "map Quantity (inventory_rows C (SKU a) s2) = [2 * Quantity a]" by simp
  qed
  show ?thesis
    by (intro conjI p1 p2 p3 p4 p5 p6)
qed

lemma trim_right_replicate: "trim_right (replicate n (CHR ''x'')) = replicate n (CHR ''x'')"
  by (simp add: trim_right_def dropWhile_replicate)

lemma long_sku_refused:
  "100 < n \<Longrightarrow> to_varchar sample_columns 100 (replicate n (CHR ''x'')) = None"
  by (simp add: sample_columns_def trim_right_replicate)

lemma long_sku_new:
  "\<not> (\<exists>r \<in> set (inventory sample_db).
      collate sample_columns (SKU r) = collate sample_columns (replicate 101 (CHR ''x'')))"
proof -
  have "length (replicate 101 (CHR ''x'')) \<noteq> length ''S1''" by simp
  then have "replicate 101 (CHR ''x'') \<noteq> ''S1''" by metis
  moreover have "trim_right ''S1'' = ''S1''" by (simp add: trim_right_def)
  ultimately show ?thesis
    by (simp add: sample_db_def stored_item_def sample_collate trim_right_replicate)
qed

lemma long_key_kept: "key_kept sample_columns (replicate 101 (CHR ''x''))"
  by (simp add: key_kept_def long_sku_refused)

theorem inventory_upsert_adds_witness:
  "schema_ok sample_columns sample_db \<and> online sample_db \<and>
   (\<exists>s'. UpsertInventory sample_columns adjust_plus5 sample_db = Inr s' \<and>
         inventory_rows sample_columns ''S1'' s'
           = [\<lparr>SKU = ''S1'', Quantity = 15, LastAdjustedAt = 200\<rparr>]) \<and>
   (\<exists>s'. UpsertInventory sample_columns (adjust_plus5\<lparr>SKU := ''S2''\<rparr>) sample_db = Inr s' \<and>
         inventory_rows sample_columns ''S2'' s'
           = [\<lparr>SKU = ''S2'', Quantity = 5, LastAdjustedAt = 200\<rparr>]) \<and>
   (\<exists>s1 s2. UpsertInventory sample_columns adjust_plus5 sample_db = Inr s1 \<and>
         UpsertInventory sample_columns adjust_minus2 s1 = Inr s2 \<and>
         map Quantity (inventory_rows sample_columns ''S1'' s2) = [13]) \<and>
   (\<exists>s1 s2. UpsertInventory sample_columns adjust_plus5 sample_db = Inr s1 \<and>
         UpsertInventory sample_columns adjust_plus5 s1 = Inr s2 \<and>
         map Quantity (inventory_rows sample_columns ''S1'' s2) = [20]) \<and>
   (\<exists>s1 s2. UpsertInventory sample_columns (adjust_plus5\<lparr>SKU := ''S2''\<rparr>) sample_db = Inr s1 \<and>
         UpsertInventory sample_columns (adjust_minus2\<lparr>SKU := ''S2 ''\<rparr>) s1 = Inr s2 \<and>
         map Quantity (inventory_rows sample_columns ''S2'' s2) = [3]) \<and>
   (\<exists>s1 s2. UpsertInventory sample_columns (adjust_plus5\<lparr>SKU := ''S2''\<rparr>) sample_db = Inr s1 \<and>
         UpsertInventory sample_columns (adjust_plus5\<lparr>SKU := ''S2''\<rparr>) s1 = Inr s2 \<and>
         map Quantity (inventory_rows sample_columns ''S2'' s2) = [10]) \<and>
   (\<exists>e. UpsertInventory sample_columns (adjust_plus5\<lparr>Quantity := 2147483647\<rparr>) sample_db = Inl e) \<and>
   (\<exists>e. UpsertInventory sample_columns (adjust_plus5\<lparr>SKU := replicate 101 (CHR ''x'')\<rparr>) sample_db
      = Inl e)"
proof -
  note T = inventory_upsert_adds[OF sample_db_ok sample_db_facts(1)]
  note c = conjunct1 conjunct2
  define s1 where "s1 = sample_db\<lparr>inventory := [\<lparr>SKU = ''S1'', Quantity = 15, LastAdjustedAt = 200\<rparr>]\<rparr>"
  define s2 where "s2 = sample_db\<lparr>inventory := [\<lparr>SKU = ''S1'', Quantity = 13, LastAdjustedAt = 300\<rparr>]\<rparr>"
  define s3 where "s3 = sample_db\<lparr>inventory := [\<lparr>SKU = ''S1'', Quantity = 20, LastAdjustedAt = 200\<rparr>]\<rparr>"
  define n1 where "n1 = sample_db\<lparr>inventory :=
    [stored_item, \<lparr>SKU = ''S2'', Quantity = 5, LastAdjustedAt = 200\<rparr>]\<rparr>"
  define n2 where "n2 = sample_db\<lparr>inventory :=
    [stored_item, \<lparr>SKU = ''S2'', Quantity = 3, LastAdjustedAt = 300\<rparr>]\<rparr>"
  define n3 where "n3 = sample_db\<lparr>inventory :=
    [stored_item, \<lparr>SKU = ''S2'', Quantity = 10, LastAdjustedAt = 200\<rparr>]\<rparr>"
  note ev = UpsertInventory_def inventory_set_def inventory_values_def sample_db_def
    stored_item_def adjust_plus5_def adjust_minus2_def sql_int_def sample_collate trim_right_def
    sample_datetime2 sample_varchar
  have e1: "UpsertInventory sample_columns adjust_plus5 sample_db = Inr s1"
    by (simp add: ev s1_def)
  have e2: "UpsertInventory sample_columns adjust_minus2 s1 = Inr s2"
    by (simp add: ev s1_def s2_def)
  have e3: "UpsertInventory sample_columns adjust_plus5 s1 = Inr s3"
    by (simp add: ev s1_def s3_def)
  have f1: "UpsertInventory sample_columns (adjust_plus5\<lparr>SKU := ''S2''\<rparr>) sample_db = Inr n1"
    by (simp add: ev n1_def)
  have f2: "UpsertInventory sample_columns (adjust_minus2\<lparr>SKU := ''S2 ''\<rparr>) n1 = Inr n2"
    by (simp add: ev n1_def n2_def)
  have f3: "UpsertInventory sample_columns (adjust_plus5\<lparr>SKU := ''S2''\<rparr>) n1 = Inr n3"
    by (simp add: ev n1_def n3_def)
  have k: "SKU adjust_plus5 = ''S1''" "SKU adjust_minus2 = ''S1 ''" "Quantity adjust_plus5 = 5"
    "Quantity adjust_minus2 = - 2" "Quantity stored_item = 10" "SKU stored_item = ''S1''"
    "LastAdjustedAt adjust_plus5 = 200"
    "stored_item \<in> set (inventory sample_db)"
    "collate sample_columns ''S1 '' = collate sample_columns ''S1''"
    "collate sample_columns ''S2 '' = collate sample_columns ''S2''"
    by (simp_all add: adjust_plus5_def adjust_minus2_def stored_item_def sample_db_def
        sample_collate trim_right_def)
  have new: "\<not> (\<exists>r \<in> set (inventory sample_db).
      collate sample_columns (SKU r) = collate sample_columns (SKU (adjust_plus5\<lparr>SKU := ''S2''\<rparr>)))"
    by (simp add: sample_db_def stored_item_def sample_collate trim_right_def)
  have kept: "key_kept sample_columns (SKU (adjust_plus5\<lparr>SKU := ''S2''\<rparr>))"
    by (simp add: sample_keys)
  have h1: "stored_item \<in> set (inventory sample_db) \<and>
      collate sample_columns (SKU stored_item) = collate sample_columns (SKU adjust_plus5)"
    by (simp add: k)
  have r1: "sql_int (Quantity stored_item + Quantity adjust_plus5) \<and>
      to_datetime2 sample_columns (LastAdjustedAt adjust_plus5) \<noteq> None"
    by (simp add: k sql_int_def sample_datetime2)
  from T[of adjust_plus5, THEN c(1), rule_format, OF h1] r1
  have "\<exists>s' t. UpsertInventory sample_columns adjust_plus5 sample_db = Inr s' \<and>
         to_datetime2 sample_columns (LastAdjustedAt adjust_plus5) = Some t \<and>
         inventory_rows sample_columns (SKU adjust_plus5) s' =
           [stored_item\<lparr>Quantity := Quantity stored_item + Quantity adjust_plus5,
                       LastAdjustedAt := t\<rparr>]"
    by simp
  then obtain sa t where sa: "UpsertInventory sample_columns adjust_plus5 sample_db = Inr sa"
    "to_datetime2 sample_columns (LastAdjustedAt adjust_plus5) = Some t"
    "inventory_rows sample_columns (SKU adjust_plus5) sa =
           [stored_item\<lparr>Quantity := Quantity stored_item + Quantity adjust_plus5,
                       LastAdjustedAt := t\<rparr>]" by blast
  from sa(2) have t: "t = 200" by (simp add: k sample_datetime2)
  have "inventory_rows sample_columns ''S1'' sa
      = [\<lparr>SKU = ''S1'', Quantity = 15, LastAdjustedAt = 200\<rparr>]"
    using sa(3) by (simp add: k t stored_item_def)
  with sa(1) have a: "\<exists>s'. UpsertInventory sample_columns adjust_plus5 sample_db = Inr s' \<and>
         inventory_rows sample_columns ''S1'' s'
           = [\<lparr>SKU = ''S1'', Quantity = 15, LastAdjustedAt = 200\<rparr>]"
    by (intro exI[of _ sa]) simp
  have r2: "sql_int (Quantity (adjust_plus5\<lparr>SKU := ''S2''\<rparr>)) \<and>
      to_varchar sample_columns 100 (SKU (adjust_plus5\<lparr>SKU := ''S2''\<rparr>)) \<noteq> None \<and>
      to_datetime2 sample_columns (LastAdjustedAt (adjust_plus5\<lparr>SKU := ''S2''\<rparr>)) \<noteq> None"
    by (simp add: k sql_int_def sample_varchar sample_datetime2)
  from T[of "adjust_plus5\<lparr>SKU := ''S2''\<rparr>", THEN c(2), THEN c(1), rule_format,
      OF conjI[OF new kept]] r2
  have b: "\<exists>s'. UpsertInventory sample_columns (adjust_plus5\<lparr>SKU := ''S2''\<rparr>) sample_db
          = Inr s' \<and>
         inventory_rows sample_columns ''S2'' s'
           = [\<lparr>SKU = ''S2'', Quantity = 5, LastAdjustedAt = 200\<rparr>]"
    by (auto simp: k sample_varchar sample_datetime2)
  have h3: "stored_item \<in> set (inventory sample_db) \<and>
        collate sample_columns (SKU stored_item) = collate sample_columns (SKU adjust_plus5) \<and>
        collate sample_columns (SKU adjust_minus2) = collate sample_columns (SKU adjust_plus5) \<and>
        Quantity adjust_plus5 = 5 \<and> Quantity adjust_minus2 = - 2 \<and>
        UpsertInventory sample_columns adjust_plus5 sample_db = Inr s1 \<and>
        UpsertInventory sample_columns adjust_minus2 s1 = Inr s2"
    using e1 e2 by (simp add: k)
  have "map Quantity (inventory_rows sample_columns ''S1'' s2) = [13]"
    using T[of adjust_plus5, THEN c(2), THEN c(2), THEN c(1), rule_format, OF h3]
    by (simp add: k)
  with e1 e2 have "\<exists>s2'. UpsertInventory sample_columns adjust_plus5 sample_db = Inr s1 \<and>
         UpsertInventory sample_columns adjust_minus2 s1 = Inr s2' \<and>
         map Quantity (inventory_rows sample_columns ''S1'' s2') = [13]"
    by (intro exI[of _ s2]) simp
  then have c3: "\<exists>s1 s2. UpsertInventory sample_columns adjust_plus5 sample_db = Inr s1 \<and>
         UpsertInventory sample_columns adjust_minus2 s1 = Inr s2 \<and>
         map Quantity (inventory_rows sample_columns ''S1'' s2) = [13]"
    by - (rule exI[of _ s1], simp)
  have h4: "stored_item \<in> set (inventory sample_db) \<and>
        collate sample_columns (SKU stored_item) = collate sample_columns (SKU adjust_plus5) \<and>
        UpsertInventory sample_columns adjust_plus5 sample_db = Inr s1 \<and>
        UpsertInventory sample_columns adjust_plus5 s1 = Inr s3"
    using e1 e3 by (simp add: k)
  have "map Quantity (inventory_rows sample_columns ''S1'' s3) = [20]"
    using T[of adjust_plus5, THEN c(2), THEN c(2), THEN c(2), THEN c(1), rule_format, OF h4]
    by (simp add: k)
  with e1 e3 have "\<exists>s2'. UpsertInventory sample_columns adjust_plus5 sample_db = Inr s1 \<and>
         UpsertInventory sample_columns adjust_plus5 s1 = Inr s2' \<and>
         map Quantity (inventory_rows sample_columns ''S1'' s2') = [20]"
    by (intro exI[of _ s3]) simp
  then have c4: "\<exists>s1 s2. UpsertInventory sample_columns adjust_plus5 sample_db = Inr s1 \<and>
         UpsertInventory sample_columns adjust_plus5 s1 = Inr s2 \<and>
         map Quantity (inventory_rows sample_columns ''S1'' s2) = [20]"
    by - (rule exI[of _ s1], simp)
  have h5: "\<not> (\<exists>r \<in> set (inventory sample_db).
          collate sample_columns (SKU r) = collate sample_columns (SKU (adjust_plus5\<lparr>SKU := ''S2''\<rparr>))) \<and>
        key_kept sample_columns (SKU (adjust_plus5\<lparr>SKU := ''S2''\<rparr>)) \<and>
        collate sample_columns (SKU (adjust_minus2\<lparr>SKU := ''S2 ''\<rparr>))
          = collate sample_columns (SKU (adjust_plus5\<lparr>SKU := ''S2''\<rparr>)) \<and>
        Quantity (adjust_plus5\<lparr>SKU := ''S2''\<rparr>) = 5 \<and>
        Quantity (adjust_minus2\<lparr>SKU := ''S2 ''\<rparr>) = - 2 \<and>
        UpsertInventory sample_columns (adjust_plus5\<lparr>SKU := ''S2''\<rparr>) sample_db = Inr n1 \<and>
        UpsertInventory sample_columns (adjust_minus2\<lparr>SKU := ''S2 ''\<rparr>) n1 = Inr n2"
    using f1 f2 new kept by (simp add: k)
  have "map Quantity (inventory_rows sample_columns ''S2'' n2) = [3]"
    using T[of adjust_plus5, THEN c(2), THEN c(2), THEN c(2), THEN c(2), THEN c(1), rule_format,
        OF h5]
    by simp
  with f1 f2 have "\<exists>s2'. UpsertInventory sample_columns (adjust_plus5\<lparr>SKU := ''S2''\<rparr>) sample_db = Inr n1 \<and>
         UpsertInventory sample_columns (adjust_minus2\<lparr>SKU := ''S2 ''\<rparr>) n1 = Inr s2' \<and>
         map Quantity (inventory_rows sample_columns ''S2'' s2') = [3]"
    by (intro exI[of _ n2]) simp
  then have c5: "\<exists>s1 s2. UpsertInventory sample_columns (adjust_plus5\<lparr>SKU := ''S2''\<rparr>) sample_db = Inr s1 \<and>
         UpsertInventory sample_columns (adjust_minus2\<lparr>SKU := ''S2 ''\<rparr>) s1 = Inr s2 \<and>
         map Quantity (inventory_rows sample_columns ''S2'' s2) = [3]"
    by - (rule exI[of _ n1], simp)
  have h6: "\<not> (\<exists>r \<in> set (inventory sample_db).
          collate sample_columns (SKU r) = collate sample_columns (SKU (adjust_plus5\<lparr>SKU := ''S2''\<rparr>))) \<and>
        key_kept sample_columns (SKU (adjust_plus5\<lparr>SKU := ''S2''\<rparr>)) \<and>
        UpsertInventory sample_columns (adjust_plus5\<lparr>SKU := ''S2''\<rparr>) sample_db = Inr n1 \<and>
        UpsertInventory sample_columns (adjust_plus5\<lparr>SKU := ''S2''\<rparr>) n1 = Inr n3"
    using f1 f3 new kept by simp
  have "map Quantity (inventory_rows sample_columns ''S2'' n3) = [10]"
    using T[of adjust_plus5, THEN c(2), THEN c(2), THEN c(2), THEN c(2), THEN c(2), rule_format,
        OF h6]
    by (simp add: k)
  with f1 f3 have "\<exists>s2'. UpsertInventory sample_columns (adjust_plus5\<lparr>SKU := ''S2''\<rparr>) sample_db = Inr n1 \<and>
         UpsertInventory sample_columns (adjust_plus5\<lparr>SKU := ''S2''\<rparr>) n1 = Inr s2' \<and>
         map Quantity (inventory_rows sample_columns ''S2'' s2') = [10]"
    by (intro exI[of _ n3]) simp
  then have c6: "\<exists>s1 s2. UpsertInventory sample_columns (adjust_plus5\<lparr>SKU := ''S2''\<rparr>) sample_db = Inr s1 \<and>
         UpsertInventory sample_columns (adjust_plus5\<lparr>SKU := ''S2''\<rparr>) s1 = Inr s2 \<and>
         map Quantity (inventory_rows sample_columns ''S2'' s2) = [10]"
    by - (rule exI[of _ n1], simp)
  have h7: "stored_item \<in> set (inventory sample_db) \<and>
      collate sample_columns (SKU stored_item)
        = collate sample_columns (SKU (adjust_plus5\<lparr>Quantity := 2147483647\<rparr>))"
    by (simp add: k)
  from T[of "adjust_plus5\<lparr>Quantity := 2147483647\<rparr>", THEN c(1), rule_format, OF h7]
  have c7: "\<exists>e. UpsertInventory sample_columns (adjust_plus5\<lparr>Quantity := 2147483647\<rparr>) sample_db
      = Inl e"
    by (simp add: k sql_int_def)
  have h8: "\<not> (\<exists>r \<in> set (inventory sample_db). collate sample_columns (SKU r)
        = collate sample_columns (SKU (adjust_plus5\<lparr>SKU := replicate 101 (CHR ''x'')\<rparr>))) \<and>
      key_kept sample_columns (SKU (adjust_plus5\<lparr>SKU := replicate 101 (CHR ''x'')\<rparr>))"
    using long_sku_new long_key_kept by simp
  from T[of "adjust_plus5\<lparr>SKU := replicate 101 (CHR ''x'')\<rparr>", THEN c(2), THEN c(1), rule_format,
      OF h8]
  have c8: "\<exists>e. UpsertInventory sample_columns (adjust_plus5\<lparr>SKU := replicate 101 (CHR ''x'')\<rparr>)
      sample_db = Inl e"
    by (simp add: long_sku_refused)
  from sample_db_ok sample_db_facts(1) a b c3 c4 c5 c6 c7 c8 show ?thesis by (intro conjI)
qed

section \<open>The sample messages\<close>

text \<open>Decoding the two sample messages gives the two sample envelopes.\<close>

lemma sample_user_decoded: "UnmarshalMap sample_lib sample_user_text = Inr sample_user_event"
  by (simp add: UnmarshalMap_def sample_lib_def sample_user_tree_def sample_user_event_def go_map_def)

lemma sample_review_decoded: "UnmarshalMap sample_lib sample_review_text = Inr sample_review_event"
  by (simp add: UnmarshalMap_def sample_lib_def sample_review_tree_def sample_review_event_def
      go_map_def sample_user_text_def sample_review_text_def)

section \<open>What the producer's validation accepts (C8)\<close>

lemma as_string_Some: "as_string v = Some s \<longleftrightarrow> v = Some (GString s)"
  by (auto simp: as_string_def split: option.splits gval.splits)

lemma as_map_Some: "as_map v = Some m \<longleftrightarrow> v = Some (GMap m)"
  by (auto simp: as_map_def split: option.splits gval.splits)

lemma as_string_None: "as_string v = None \<longleftrightarrow> (\<forall>s. v \<noteq> Some (GString s))"
  by (auto simp: as_string_def split: option.splits gval.splits)

lemma as_map_None: "as_map v = None \<longleftrightarrow> (\<forall>m. v \<noteq> Some (GMap m))"
  by (auto simp: as_map_def split: option.splits gval.splits)

lemma validateData_required:
  assumes "eventType \<in> set validTypes"
  shows "validateData eventType data = None \<longleftrightarrow>
         (\<forall>f \<in> set (required_data_fields eventType). lookup data f \<noteq> None)"
proof -
  from assms consider "eventType = ''UserCreated''" | "eventType = ''OrderPlaced''"
    | "eventType = ''PaymentSettled''" | "eventType = ''InventoryAdjusted''"
    by (auto simp: validTypes_def)
  then show ?thesis
    by cases (auto simp add: validateData_def required_data_fields_def)
qed

lemma validateEvent_typed:
  assumes "lookup event ''eventId'' \<noteq> None" "lookup event ''timestamp'' \<noteq> None"
    "lookup event ''type'' = Some (GString eventType)" "lookup event ''data'' = Some (GMap data)"
    "eventType \<in> set validTypes"
  shows "validateEvent event = None \<longleftrightarrow> (\<forall>f \<in> set (required_data_fields eventType). lookup data f \<noteq> None)"
proof -
  from assms(1) obtain a where a: "lookup event ''eventId'' = Some a" by auto
  from assms(2) obtain b where b: "lookup event ''timestamp'' = Some b" by auto
  have "validateEvent event = validateData eventType data"
    using assms(5) by (simp add: validateEvent_def a b assms(3,4) as_string_def as_map_def)
  with validateData_required[OF assms(5)] show ?thesis by simp
qed

lemma validateEvent_None_envelope:
  assumes "validateEvent event = None"
  shows "lookup event ''eventId'' \<noteq> None \<and> lookup event ''timestamp'' \<noteq> None \<and>
         (\<exists>eventType data. lookup event ''type'' = Some (GString eventType) \<and>
            eventType \<in> set validTypes \<and> lookup event ''data'' = Some (GMap data))"
proof -
  have 1: "lookup event ''eventId'' \<noteq> None"
  proof
    assume "lookup event ''eventId'' = None"
    then have "validateEvent event = Some (Errorf ''eventId is required'')"
      by (simp add: validateEvent_def)
    with assms show False by simp
  qed
  then obtain a where a: "lookup event ''eventId'' = Some a" by auto
  have 2: "lookup event ''type'' \<noteq> None"
  proof
    assume "lookup event ''type'' = None"
    then have "validateEvent event = Some (Errorf ''type is required'')"
      by (simp add: validateEvent_def a)
    with assms show False by simp
  qed
  then obtain b where b: "lookup event ''type'' = Some b" by auto
  have 3: "lookup event ''timestamp'' \<noteq> None"
  proof
    assume "lookup event ''timestamp'' = None"
    then have "validateEvent event = Some (Errorf ''timestamp is required'')"
      by (simp add: validateEvent_def a b)
    with assms show False by simp
  qed
  then obtain c where c: "lookup event ''timestamp'' = Some c" by auto
  have 4: "lookup event ''data'' \<noteq> None"
  proof
    assume "lookup event ''data'' = None"
    then have "validateEvent event = Some (Errorf ''data is required'')"
      by (simp add: validateEvent_def a b c)
    with assms show False by simp
  qed
  then obtain d where d: "lookup event ''data'' = Some d" by auto
  have 5: "as_string (Some b) \<noteq> None"
  proof
    assume "as_string (Some b) = None"
    then have "validateEvent event = Some (Errorf ''type must be a string'')"
      by (simp add: validateEvent_def a b c d)
    with assms show False by simp
  qed
  then obtain eventType where t: "as_string (Some b) = Some eventType" by auto
  have 6: "eventType \<in> set validTypes"
  proof (rule ccontr)
    assume "eventType \<notin> set validTypes"
    then have "validateEvent event = Some (Errorf (''invalid event type: '' @ eventType))"
      by (simp add: validateEvent_def a b c d t)
    with assms show False by simp
  qed
  have 7: "as_map (Some d) \<noteq> None"
  proof
    assume "as_map (Some d) = None"
    then have "validateEvent event = Some (Errorf ''data must be an object'')"
      using 6 by (simp add: validateEvent_def a b c d t)
    with assms show False by simp
  qed
  then obtain data where m: "as_map (Some d) = Some data" by auto
  from t have "b = GString eventType" by (simp add: as_string_Some)
  moreover from m have "d = GMap data" by (simp add: as_map_Some)
  ultimately show ?thesis using 1 3 6 b d by simp
qed

text \<open>
  Claim C8 says that \<open>validateEvent\<close> accepts every well-formed event of the five
  types, ProductReview among them. It does not: \<open>validTypes\<close> lists four types, and a
  complete ProductReview event is refused with the error that names its type.
\<close>

theorem validateEvent_review_counterexample:
  "validateEvent sample_review_event = Some (Errorf ''invalid event type: ProductReview'')"
  by (simp add: validateEvent_def sample_review_event_def lookup_def as_string_def validTypes_def)

text \<open>
  Claim C8, as amended. \<open>validateEvent\<close> accepts an event exactly when \<open>eventId\<close> and
  \<open>timestamp\<close> are present, \<open>type\<close> is a string among UserCreated, OrderPlaced,
  PaymentSettled and InventoryAdjusted, \<open>data\<close> is an object, and the data fields the
  type requires are present; and for any other type string (ProductReview included), with
  the four envelope fields present, it returns the error \<open>invalid event type: <type>\<close>.
\<close>

theorem validateEvent_accepts_four:
  "(validateEvent event = None \<longleftrightarrow>
      lookup event ''eventId'' \<noteq> None \<and> lookup event ''timestamp'' \<noteq> None \<and>
      (\<exists>eventType data.
         lookup event ''type'' = Some (GString eventType) \<and>
         eventType \<in> {''UserCreated'', ''OrderPlaced'', ''PaymentSettled'', ''InventoryAdjusted''} \<and>
         lookup event ''data'' = Some (GMap data) \<and>
         (\<forall>f \<in> set (required_data_fields eventType). lookup data f \<noteq> None))) \<and>
   (\<forall>eventType.
      lookup event ''eventId'' \<noteq> None \<and> lookup event ''timestamp'' \<noteq> None \<and>
      lookup event ''data'' \<noteq> None \<and> lookup event ''type'' = Some (GString eventType) \<and>
      eventType \<notin> {''UserCreated'', ''OrderPlaced'', ''PaymentSettled'', ''InventoryAdjusted''} \<longrightarrow>
      validateEvent event = Some (Errorf (''invalid event type: '' @ eventType)))"
proof -
  have vt: "set validTypes = {''UserCreated'', ''OrderPlaced'', ''PaymentSettled'', ''InventoryAdjusted''}"
    by (simp add: validTypes_def)
  have a: "validateEvent event = None \<longleftrightarrow>
      lookup event ''eventId'' \<noteq> None \<and> lookup event ''timestamp'' \<noteq> None \<and>
      (\<exists>eventType data.
         lookup event ''type'' = Some (GString eventType) \<and>
         eventType \<in> set validTypes \<and>
         lookup event ''data'' = Some (GMap data) \<and>
         (\<forall>f \<in> set (required_data_fields eventType). lookup data f \<noteq> None))"
    (is "?l \<longleftrightarrow> ?r")
  proof
    assume l: ?l
    from validateEvent_None_envelope[OF l] obtain eventType data where
      e: "lookup event ''eventId'' \<noteq> None" "lookup event ''timestamp'' \<noteq> None"
         "lookup event ''type'' = Some (GString eventType)" "lookup event ''data'' = Some (GMap data)"
         "eventType \<in> set validTypes"
      by blast
    from validateEvent_typed[OF e] l e show ?r by blast
  next
    assume ?r
    then obtain eventType data where
      e: "lookup event ''eventId'' \<noteq> None" "lookup event ''timestamp'' \<noteq> None"
         "lookup event ''type'' = Some (GString eventType)" "lookup event ''data'' = Some (GMap data)"
         "eventType \<in> set validTypes"
      and f: "\<forall>f \<in> set (required_data_fields eventType). lookup data f \<noteq> None"
      by blast
    from validateEvent_typed[OF e] f show ?l by blast
  qed
  have b: "validateEvent event = Some (Errorf (''invalid event type: '' @ eventType))"
    if "lookup event ''eventId'' \<noteq> None" "lookup event ''timestamp'' \<noteq> None"
      "lookup event ''data'' \<noteq> None" "lookup event ''type'' = Some (GString eventType)"
      "eventType \<notin> set validTypes" for eventType
  proof -
    from that(1) obtain x where x: "lookup event ''eventId'' = Some x" by auto
    from that(2) obtain y where y: "lookup event ''timestamp'' = Some y" by auto
    from that(3) obtain z where z: "lookup event ''data'' = Some z" by auto
    from that(5) show ?thesis
      by (simp add: validateEvent_def x y z that(4) as_string_def)
  qed
  have b': "\<forall>eventType.
      lookup event ''eventId'' \<noteq> None \<and> lookup event ''timestamp'' \<noteq> None \<and>
      lookup event ''data'' \<noteq> None \<and> lookup event ''type'' = Some (GString eventType) \<and>
      eventType \<notin> set validTypes \<longrightarrow>
      validateEvent event = Some (Errorf (''invalid event type: '' @ eventType))"
    by (intro allI impI) (elim conjE, rule b)
  show ?thesis
    unfolding vt[symmetric] using a b' by (rule conjI)
qed

theorem validateEvent_accepts_four_witness:
  "validateEvent (map_put ''timestamp'' (GString ''2025-01-01T00:00:00Z'') sample_user_event) = None \<and>
   validateEvent sample_review_event = Some (Errorf (''invalid event type: '' @ ''ProductReview''))"
proof -
  define E where "E = map_put ''timestamp'' (GString ''2025-01-01T00:00:00Z'') sample_user_event"
  define D where "D = [(''createdAt'', GString ''2025-01-01T00:00:00Z''),
                       (''email'', GString ''a@x.com''), (''name'', GString ''A''),
                       (''userId'', GString ''u1'')]"
  have E: "E = [(''data'', GMap D), (''eventId'', GString ''e1''),
                (''timestamp'', GString ''2025-01-01T00:00:00Z''), (''type'', GString ''UserCreated'')]"
    by (simp add: E_def D_def sample_user_event_def)
  have l: "lookup E ''eventId'' \<noteq> None" "lookup E ''timestamp'' \<noteq> None"
    "lookup E ''type'' = Some (GString ''UserCreated'')" "lookup E ''data'' = Some (GMap D)"
    by (simp_all add: E lookup_def)
  have d: "\<forall>f \<in> set (required_data_fields ''UserCreated''). lookup D f \<noteq> None"
    by (simp add: required_data_fields_def D_def lookup_def)
  have "\<exists>data. lookup E ''type'' = Some (GString ''UserCreated'') \<and>
         ''UserCreated'' \<in> {''UserCreated'', ''OrderPlaced'', ''PaymentSettled'', ''InventoryAdjusted''} \<and>
         lookup E ''data'' = Some (GMap data) \<and>
         (\<forall>f \<in> set (required_data_fields ''UserCreated''). lookup data f \<noteq> None)"
    using l d by - (rule exI[of _ D], simp)
  then have "\<exists>eventType data. lookup E ''type'' = Some (GString eventType) \<and>
         eventType \<in> {''UserCreated'', ''OrderPlaced'', ''PaymentSettled'', ''InventoryAdjusted''} \<and>
         lookup E ''data'' = Some (GMap data) \<and>
         (\<forall>f \<in> set (required_data_fields eventType). lookup data f \<noteq> None)"
    by (rule exI[of _ "''UserCreated''"])
  with l(1,2) have r: "lookup E ''eventId'' \<noteq> None \<and> lookup E ''timestamp'' \<noteq> None \<and>
      (\<exists>eventType data. lookup E ''type'' = Some (GString eventType) \<and>
         eventType \<in> {''UserCreated'', ''OrderPlaced'', ''PaymentSettled'', ''InventoryAdjusted''} \<and>
         lookup E ''data'' = Some (GMap data) \<and>
         (\<forall>f \<in> set (required_data_fields eventType). lookup data f \<noteq> None))"
    by (intro conjI)
  have a: "validateEvent E = None"
    using validateEvent_accepts_four[of E, THEN conjunct1, THEN iffD2, OF r] .
  have h: "lookup sample_review_event ''eventId'' \<noteq> None \<and>
      lookup sample_review_event ''timestamp'' \<noteq> None \<and>
      lookup sample_review_event ''data'' \<noteq> None \<and>
      lookup sample_review_event ''type'' = Some (GString ''ProductReview'') \<and>
      ''ProductReview'' \<notin> {''UserCreated'', ''OrderPlaced'', ''PaymentSettled'', ''InventoryAdjusted''}"
    by (simp add: sample_review_event_def lookup_def)
  have b: "validateEvent sample_review_event = Some (Errorf (''invalid event type: '' @ ''ProductReview''))"
    using validateEvent_accepts_four[of sample_review_event, THEN conjunct2, rule_format, OF h] .
  from a b show ?thesis unfolding E_def by (rule conjI)
qed

section \<open>The message key (C7)\<close>

lemma extractKey_Inr:
  assumes "extractKey event = Inr k"
  shows "\<exists>eventMap eventType data field.
           event = GMap eventMap \<and> lookup eventMap ''type'' = Some (GString eventType) \<and>
           lookup eventMap ''data'' = Some (GMap data) \<and>
           partition_key_field eventType = Some field \<and>
           lookup data field = Some (GString k)"
proof -
  from assms obtain eventMap where ev: "event = GMap eventMap"
    by (cases event) (simp_all add: extractKey_def)
  from assms ev obtain eventType where t: "as_string (lookup eventMap ''type'') = Some eventType"
    by (cases "as_string (lookup eventMap ''type'')") (simp_all add: extractKey_def)
  from assms ev t obtain data where d: "as_map (lookup eventMap ''data'') = Some data"
    by (cases "as_map (lookup eventMap ''data'')") (simp_all add: extractKey_def)
  from assms have sw: "(if eventType = ''UserCreated'' then
                      (case as_string (lookup data ''userId'') of
                         Some userID \<Rightarrow> Inr userID
                       | None \<Rightarrow> Inl (Errorf ''userId not found in UserCreated event''))
                    else if eventType = ''OrderPlaced'' then
                      (case as_string (lookup data ''orderId'') of
                         Some orderID \<Rightarrow> Inr orderID
                       | None \<Rightarrow> Inl (Errorf ''orderId not found in OrderPlaced event''))
                    else if eventType = ''PaymentSettled'' then
                      (case as_string (lookup data ''orderId'') of
                         Some orderID \<Rightarrow> Inr orderID
                       | None \<Rightarrow> Inl (Errorf ''orderId not found in PaymentSettled event''))
                    else if eventType = ''InventoryAdjusted'' then
                      (case as_string (lookup data ''sku'') of
                         Some sku \<Rightarrow> Inr sku
                       | None \<Rightarrow> Inl (Errorf ''sku not found in InventoryAdjusted event''))
                    else if eventType = ''ProductReview'' then
                      (case as_string (lookup data ''reviewId'') of
                         Some reviewID \<Rightarrow> Inr reviewID
                       | None \<Rightarrow> Inl (Errorf ''reviewId not found in ProductReview event''))
                    else Inl (Errorf (''unknown event type: '' @ eventType))) = Inr k"
    by (simp add: extractKey_def ev t d)
  then obtain field where f: "partition_key_field eventType = Some field"
    "as_string (lookup data field) = Some k"
    by (auto simp: partition_key_field_def split: if_splits option.splits)
  from ev t d f show ?thesis
    by (simp add: as_string_Some as_map_Some)
qed

lemma extractKey_known:
  assumes "lookup eventMap ''type'' = Some (GString eventType)"
    "lookup eventMap ''data'' = Some (GMap data)"
    "partition_key_field eventType = Some field" "lookup data field = Some (GString k)"
  shows "extractKey (GMap eventMap) = Inr k"
proof -
  have t: "as_string (lookup eventMap ''type'') = Some eventType"
    and d: "as_map (lookup eventMap ''data'') = Some data"
    and f: "as_string (lookup data field) = Some k"
    using assms(1,2,4) by (simp_all add: as_string_def as_map_def)
  from assms(3) consider
      "eventType = ''UserCreated''" "field = ''userId''"
    | "eventType = ''OrderPlaced''" "field = ''orderId''"
    | "eventType = ''PaymentSettled''" "field = ''orderId''"
    | "eventType = ''InventoryAdjusted''" "field = ''sku''"
    | "eventType = ''ProductReview''" "field = ''reviewId''"
    by (auto simp: partition_key_field_def split: if_splits)
  then show ?thesis
  proof cases
    case 1
    with f have "as_string (lookup data ''userId'') = Some k" by simp
    with 1 t d show ?thesis by (simp add: extractKey_def)
  next
    case 2
    with f have "as_string (lookup data ''orderId'') = Some k" by simp
    with 2 t d show ?thesis by (simp add: extractKey_def)
  next
    case 3
    with f have "as_string (lookup data ''orderId'') = Some k" by simp
    with 3 t d show ?thesis by (simp add: extractKey_def)
  next
    case 4
    with f have "as_string (lookup data ''sku'') = Some k" by simp
    with 4 t d show ?thesis by (simp add: extractKey_def)
  next
    case 5
    with f have "as_string (lookup data ''reviewId'') = Some k" by simp
    with 5 t d show ?thesis by (simp add: extractKey_def)
  qed
qed

lemma extractKey_unknown:
  assumes "lookup eventMap ''type'' = Some (GString eventType)" "partition_key_field eventType = None"
  shows "\<exists>e. extractKey (GMap eventMap) = Inl e"
    and "lookup eventMap ''data'' = Some (GMap data) \<Longrightarrow>
         extractKey (GMap eventMap) = Inl (Errorf (''unknown event type: '' @ eventType))"
proof -
  from assms(2) have n: "eventType \<noteq> ''UserCreated''" "eventType \<noteq> ''OrderPlaced''"
    "eventType \<noteq> ''PaymentSettled''" "eventType \<noteq> ''InventoryAdjusted''"
    "eventType \<noteq> ''ProductReview''"
    by (auto simp: partition_key_field_def split: if_splits)
  show "\<exists>e. extractKey (GMap eventMap) = Inl e"
  proof (cases "as_map (lookup eventMap ''data'')")
    case None
    with assms(1) show ?thesis by (simp add: extractKey_def as_string_def)
  next
    case (Some data)
    with n assms(1) show ?thesis by (simp add: extractKey_def as_string_def)
  qed
  show "extractKey (GMap eventMap) = Inl (Errorf (''unknown event type: '' @ eventType))"
    if "lookup eventMap ''data'' = Some (GMap data)"
    using that n assms(1) by (simp add: extractKey_def as_string_def as_map_def)
qed

lemma extractKey_missing:
  assumes "lookup eventMap ''type'' = Some (GString eventType)"
    "lookup eventMap ''data'' = Some (GMap data)"
    "partition_key_field eventType = Some field" "\<forall>k. lookup data field \<noteq> Some (GString k)"
  shows "\<exists>e. extractKey (GMap eventMap) = Inl e"
proof -
  have t: "as_string (lookup eventMap ''type'') = Some eventType"
    and d: "as_map (lookup eventMap ''data'') = Some data"
    using assms(1,2) by (simp_all add: as_string_def as_map_def)
  from assms(4) have f: "as_string (lookup data field) = None"
    by (cases "lookup data field") (auto simp: as_string_def split: gval.splits)
  from assms(3) consider
      "eventType = ''UserCreated''" "field = ''userId''"
    | "eventType = ''OrderPlaced''" "field = ''orderId''"
    | "eventType = ''PaymentSettled''" "field = ''orderId''"
    | "eventType = ''InventoryAdjusted''" "field = ''sku''"
    | "eventType = ''ProductReview''" "field = ''reviewId''"
    by (auto simp: partition_key_field_def split: if_splits)
  then show ?thesis
  proof cases
    case 1
    with f have "as_string (lookup data ''userId'') = None" by simp
    with 1 t d show ?thesis by (simp add: extractKey_def)
  next
    case 2
    with f have "as_string (lookup data ''orderId'') = None" by simp
    with 2 t d show ?thesis by (simp add: extractKey_def)
  next
    case 3
    with f have "as_string (lookup data ''orderId'') = None" by simp
    with 3 t d show ?thesis by (simp add: extractKey_def)
  next
    case 4
    with f have "as_string (lookup data ''sku'') = None" by simp
    with 4 t d show ?thesis by (simp add: extractKey_def)
  next
    case 5
    with f have "as_string (lookup data ''reviewId'') = None" by simp
    with 5 t d show ?thesis by (simp add: extractKey_def)
  qed
qed

text \<open>
  Claim C7. Every message \<open>PublishEvent\<close> writes has as its key the business identifier
  of the event's type: the event is a map whose \<open>type\<close> is a string, whose \<open>data\<close> is a
  map, and the key is the string stored in \<open>data\<close> under userId for UserCreated, orderId
  for OrderPlaced and PaymentSettled, sku for InventoryAdjusted and reviewId for
  ProductReview. Conversely every such event gets that key: \<open>extractKey\<close> returns the
  identifier, and \<open>PublishEvent\<close>, when the broker takes the message, writes the
  marshalled event under it. An event of one of the five types whose identifier is
  missing or is no string gets no key: \<open>extractKey\<close> and \<open>PublishEvent\<close> return an error.
  For any other type string \<open>extractKey\<close> returns an error, \<open>unknown event type\<close> with
  the type when \<open>data\<close> is a map, and so does \<open>PublishEvent\<close>, which writes nothing.
\<close>

theorem published_key_is_business_key:
  "(\<forall>m. PublishEvent L now writable event = Inr m \<longrightarrow>
      (\<exists>eventMap eventType data field.
         event = GMap eventMap \<and> lookup eventMap ''type'' = Some (GString eventType) \<and>
         lookup eventMap ''data'' = Some (GMap data) \<and>
         partition_key_field eventType = Some field \<and>
         lookup data field = Some (GString (Key_p m)))) \<and>
   (\<forall>eventMap eventType data field k.
      lookup eventMap ''type'' = Some (GString eventType) \<and>
      lookup eventMap ''data'' = Some (GMap data) \<and>
      partition_key_field eventType = Some field \<and>
      lookup data field = Some (GString k) \<longrightarrow>
      extractKey (GMap eventMap) = Inr k \<and>
      PublishEvent L now True (GMap eventMap)
        = Inr \<lparr>Key_p = k, Value_p = Marshal L (GMap eventMap), Time_p = now\<rparr>) \<and>
   (\<forall>eventMap eventType data field.
      lookup eventMap ''type'' = Some (GString eventType) \<and>
      lookup eventMap ''data'' = Some (GMap data) \<and>
      partition_key_field eventType = Some field \<and>
      (\<forall>k. lookup data field \<noteq> Some (GString k)) \<longrightarrow>
      (\<exists>e. extractKey (GMap eventMap) = Inl e) \<and>
      (\<exists>e. PublishEvent L now writable (GMap eventMap) = Inl e)) \<and>
   (\<forall>eventMap eventType.
      lookup eventMap ''type'' = Some (GString eventType) \<and>
      eventType \<notin> {''UserCreated'', ''OrderPlaced'', ''PaymentSettled'', ''InventoryAdjusted'',
                    ''ProductReview''} \<longrightarrow>
      (\<exists>e. extractKey (GMap eventMap) = Inl e) \<and>
      (\<forall>data. lookup eventMap ''data'' = Some (GMap data) \<longrightarrow>
         extractKey (GMap eventMap) = Inl (Errorf (''unknown event type: '' @ eventType))) \<and>
      (\<exists>e. PublishEvent L now writable (GMap eventMap) = Inl e))"
proof -
  have a: "\<forall>m. PublishEvent L now writable event = Inr m \<longrightarrow>
      (\<exists>eventMap eventType data field.
         event = GMap eventMap \<and> lookup eventMap ''type'' = Some (GString eventType) \<and>
         lookup eventMap ''data'' = Some (GMap data) \<and>
         partition_key_field eventType = Some field \<and>
         lookup data field = Some (GString (Key_p m)))"
  proof (intro allI impI)
    fix m assume h: "PublishEvent L now writable event = Inr m"
    then have "extractKey event = Inr (Key_p m)"
      by (auto simp: PublishEvent_def Let_def split: sum.splits if_splits)
    then show "\<exists>eventMap eventType data field.
         event = GMap eventMap \<and> lookup eventMap ''type'' = Some (GString eventType) \<and>
         lookup eventMap ''data'' = Some (GMap data) \<and>
         partition_key_field eventType = Some field \<and>
         lookup data field = Some (GString (Key_p m))" by (rule extractKey_Inr)
  qed
  have b: "\<forall>eventMap eventType data field k.
      lookup eventMap ''type'' = Some (GString eventType) \<and>
      lookup eventMap ''data'' = Some (GMap data) \<and>
      partition_key_field eventType = Some field \<and>
      lookup data field = Some (GString k) \<longrightarrow>
      extractKey (GMap eventMap) = Inr k \<and>
      PublishEvent L now True (GMap eventMap)
        = Inr \<lparr>Key_p = k, Value_p = Marshal L (GMap eventMap), Time_p = now\<rparr>"
  proof (intro allI impI, elim conjE)
    fix eventMap eventType data field k
    assume h: "lookup eventMap ''type'' = Some (GString eventType)"
      "lookup eventMap ''data'' = Some (GMap data)"
      "partition_key_field eventType = Some field" "lookup data field = Some (GString k)"
    have k: "extractKey (GMap eventMap) = Inr k" using h by (rule extractKey_known)
    have "PublishEvent L now True (GMap eventMap)
        = Inr \<lparr>Key_p = k, Value_p = Marshal L (GMap eventMap), Time_p = now\<rparr>"
      by (simp only: PublishEvent_def Let_def k sum.case) simp
    with k show "extractKey (GMap eventMap) = Inr k \<and>
      PublishEvent L now True (GMap eventMap)
        = Inr \<lparr>Key_p = k, Value_p = Marshal L (GMap eventMap), Time_p = now\<rparr>" by (rule conjI)
  qed
  have m: "\<forall>eventMap eventType data field.
      lookup eventMap ''type'' = Some (GString eventType) \<and>
      lookup eventMap ''data'' = Some (GMap data) \<and>
      partition_key_field eventType = Some field \<and>
      (\<forall>k. lookup data field \<noteq> Some (GString k)) \<longrightarrow>
      (\<exists>e. extractKey (GMap eventMap) = Inl e) \<and>
      (\<exists>e. PublishEvent L now writable (GMap eventMap) = Inl e)"
  proof (intro allI impI, elim conjE)
    fix eventMap eventType data field
    assume h: "lookup eventMap ''type'' = Some (GString eventType)"
      "lookup eventMap ''data'' = Some (GMap data)"
      "partition_key_field eventType = Some field" "\<forall>k. lookup data field \<noteq> Some (GString k)"
    from extractKey_missing[OF h] obtain e where e: "extractKey (GMap eventMap) = Inl e" ..
    then have "\<exists>e. PublishEvent L now writable (GMap eventMap) = Inl e"
      by (simp add: PublishEvent_def Let_def)
    with e show "(\<exists>e. extractKey (GMap eventMap) = Inl e) \<and>
      (\<exists>e. PublishEvent L now writable (GMap eventMap) = Inl e)" by blast
  qed
  have c: "\<forall>eventMap eventType.
      lookup eventMap ''type'' = Some (GString eventType) \<and>
      eventType \<notin> {''UserCreated'', ''OrderPlaced'', ''PaymentSettled'', ''InventoryAdjusted'',
                    ''ProductReview''} \<longrightarrow>
      (\<exists>e. extractKey (GMap eventMap) = Inl e) \<and>
      (\<forall>data. lookup eventMap ''data'' = Some (GMap data) \<longrightarrow>
         extractKey (GMap eventMap) = Inl (Errorf (''unknown event type: '' @ eventType))) \<and>
      (\<exists>e. PublishEvent L now writable (GMap eventMap) = Inl e)"
  proof (intro allI impI, elim conjE)
    fix eventMap eventType
    assume h: "lookup eventMap ''type'' = Some (GString eventType)"
      "eventType \<notin> {''UserCreated'', ''OrderPlaced'', ''PaymentSettled'', ''InventoryAdjusted'',
                    ''ProductReview''}"
    from h(2) have n: "partition_key_field eventType = None"
      by (simp add: partition_key_field_def)
    from extractKey_unknown(1)[OF h(1) n] obtain e where e: "extractKey (GMap eventMap) = Inl e" ..
    then have p: "\<exists>e. PublishEvent L now writable (GMap eventMap) = Inl e"
      by (simp add: PublishEvent_def Let_def)
    have u: "\<forall>data. lookup eventMap ''data'' = Some (GMap data) \<longrightarrow>
         extractKey (GMap eventMap) = Inl (Errorf (''unknown event type: '' @ eventType))"
      using extractKey_unknown(2)[OF h(1) n] by blast
    from e have x: "\<exists>e. extractKey (GMap eventMap) = Inl e" by blast
    from x u p show "(\<exists>e. extractKey (GMap eventMap) = Inl e) \<and>
      (\<forall>data. lookup eventMap ''data'' = Some (GMap data) \<longrightarrow>
         extractKey (GMap eventMap) = Inl (Errorf (''unknown event type: '' @ eventType))) \<and>
      (\<exists>e. PublishEvent L now writable (GMap eventMap) = Inl e)" by (intro conjI)
  qed
  from a b m c show ?thesis by (intro conjI)
qed

theorem published_key_is_business_key_witness:
  "(\<exists>m. PublishEvent sample_lib 7 True (GMap sample_user_event) = Inr m \<and> Key_p m = ''u1'') \<and>
   PublishEvent sample_lib 7 True (GMap sample_review_event)
     = Inr \<lparr>Key_p = ''r1'', Value_p = Marshal sample_lib (GMap sample_review_event), Time_p = 7\<rparr> \<and>
   extractKey (GMap [(''data'', GMap []), (''type'', GString ''UserDeleted'')])
     = Inl (Errorf ''unknown event type: UserDeleted'') \<and>
   (\<exists>e. PublishEvent sample_lib 7 True (GMap [(''data'', GMap []), (''type'', GString ''UserDeleted'')])
     = Inl e) \<and>
   validateEvent numeric_order_event = None \<and>
   (\<exists>e. PublishEvent sample_lib 7 True (GMap numeric_order_event) = Inl e)"
proof -
  define m1 where "m1 = \<lparr>Key_p = ''u1'', Value_p = Marshal sample_lib (GMap sample_user_event), Time_p = 7\<rparr>"
  have k1: "extractKey (GMap sample_user_event) = Inr ''u1''"
    by (simp add: extractKey_def sample_user_event_def lookup_def as_string_def as_map_def)
  have p1: "PublishEvent sample_lib 7 True (GMap sample_user_event) = Inr m1"
    by (simp only: PublishEvent_def Let_def k1 sum.case m1_def) simp
  note T1 = published_key_is_business_key[of sample_lib 7 True "GMap sample_user_event",
      THEN conjunct1, rule_format, OF p1]
  have "Key_p m1 = ''u1''"
    using T1 by (auto simp: sample_user_event_def lookup_def partition_key_field_def)
  with p1 have a: "\<exists>m. PublishEvent sample_lib 7 True (GMap sample_user_event) = Inr m \<and> Key_p m = ''u1''"
    by (intro exI[of _ m1]) simp
  have h2: "lookup sample_review_event ''type'' = Some (GString ''ProductReview'') \<and>
      lookup sample_review_event ''data'' =
        Some (GMap [(''createdAt'', GString ''2025-01-01T00:00:00Z''),
                       (''productName'', GString ''P''), (''rating'', GFloat64 5),
                       (''remarks'', GString ''ok''), (''reviewId'', GString ''r1''),
                       (''username'', GString ''A'')]) \<and>
      partition_key_field ''ProductReview'' = Some ''reviewId'' \<and>
      lookup [(''createdAt'', GString ''2025-01-01T00:00:00Z''),
                       (''productName'', GString ''P''), (''rating'', GFloat64 5),
                       (''remarks'', GString ''ok''), (''reviewId'', GString ''r1''),
                       (''username'', GString ''A'')] ''reviewId'' = Some (GString ''r1'')"
    by (simp add: sample_review_event_def lookup_def partition_key_field_def)
  have b: "PublishEvent sample_lib 7 True (GMap sample_review_event)
     = Inr \<lparr>Key_p = ''r1'', Value_p = Marshal sample_lib (GMap sample_review_event), Time_p = 7\<rparr>"
    using published_key_is_business_key[of sample_lib 7 True "GMap sample_user_event",
      THEN conjunct2, THEN conjunct1, rule_format, OF h2] by (rule conjunct2)
  have h: "lookup [(''data'', GMap []), (''type'', GString ''UserDeleted'')] ''type''
        = Some (GString ''UserDeleted'') \<and>
      ''UserDeleted'' \<notin> {''UserCreated'', ''OrderPlaced'', ''PaymentSettled'', ''InventoryAdjusted'',
                    ''ProductReview''}"
    by (simp add: lookup_def)
  note U = published_key_is_business_key[of sample_lib 7 True "GMap sample_user_event",
      THEN conjunct2, THEN conjunct2, THEN conjunct2, rule_format, OF h]
  have d: "lookup [(''data'', GMap []), (''type'', GString ''UserDeleted'')] ''data'' = Some (GMap [])"
    by (simp add: lookup_def)
  have c: "extractKey (GMap [(''data'', GMap []), (''type'', GString ''UserDeleted'')])
     = Inl (Errorf ''unknown event type: UserDeleted'')"
    using U[THEN conjunct2, THEN conjunct1, rule_format, OF d] by simp
  have e: "\<exists>e. PublishEvent sample_lib 7 True (GMap [(''data'', GMap []), (''type'', GString ''UserDeleted'')])
     = Inl e"
    using U by (rule conjunct2[THEN conjunct2])
  have v: "validateEvent numeric_order_event = None"
    by (simp add: validateEvent_def validateData_def validTypes_def numeric_order_event_def
        lookup_def as_string_def as_map_def)
  have h4: "lookup numeric_order_event ''type'' = Some (GString ''OrderPlaced'') \<and>
      lookup numeric_order_event ''data'' =
        Some (GMap [(''orderId'', GFloat64 17), (''total'', GFloat64 10), (''userId'', GString ''u1'')]) \<and>
      partition_key_field ''OrderPlaced'' = Some ''orderId'' \<and>
      (\<forall>k. lookup [(''orderId'', GFloat64 17), (''total'', GFloat64 10), (''userId'', GString ''u1'')]
             ''orderId'' \<noteq> Some (GString k))"
    by (simp add: numeric_order_event_def lookup_def partition_key_field_def)
  have n: "\<exists>e. PublishEvent sample_lib 7 True (GMap numeric_order_event) = Inl e"
    using published_key_is_business_key[of sample_lib 7 True "GMap sample_user_event",
      THEN conjunct2, THEN conjunct2, THEN conjunct1, rule_format, OF h4] by (rule conjunct2)
  from a b c e v n show ?thesis by (intro conjI)
qed

section \<open>The envelope parser (C2)\<close>










section \<open>Dead letters, newest first (C5)\<close>







section \<open>The payload of a dead letter, read back (C6)\<close>


lemma rune_width_le4: "rune_width bs \<le> 4"
  by (cases bs) (auto split: list.splits)














section \<open>Commits and outcomes (C1)\<close>

lemma sample_world_read:
  "ReadMessage sample_world =
     Some (sample_message, sample_world\<lparr>broker := [], effects := [Fetched 0, Committed 0]\<rparr>)"
  by (simp add: ReadMessage_def Reader_ReadMessage_def Reader_FetchMessage_def
      Reader_CommitMessages_def useConsumerGroup_def sample_world_def main_consumer_def
      NewConsumer_def getEnv_def sample_message_def)

lemma sample_user_upsert:
  "processEventByType sample_lib sample_columns 7 sample_user_event sample_db
     = (Returned None, sample_db\<lparr>users := [stored_user\<lparr>UpdatedAt := 0\<rparr>]\<rparr>)"
  by (simp add: processEventByType_def sample_user_event_def lookup_def as_string_def as_map_def
      upserted_def UpsertUser_def user_set_def sample_varchar sample_datetime2_cut sample_collate
      trim_right_def sample_db_def stored_user_def parseTime_def sample_lib_def)

text \<open>
  Claim C1 says that the offset of a message is committed only after the message was
  persisted or dead-lettered. The commits \<open>processMessage\<close> makes do come after the
  outcome, but the consumer reads with \<open>ReadMessage\<close>, and the reader \<open>main\<close> builds is
  in a consumer group (\<open>consumer-group\<close> unless \<open>KAFKA_GROUP_ID\<close> names another), where
  \<open>ReadMessage\<close> commits the offset of the message it returns. Here the run reads the
  sample user message: its offset 0 is committed by the read, before the upsert, and
  once more after it.
\<close>

theorem commit_before_outcome:
  "useConsumerGroup (rdr sample_world) \<and>
   map_option (\<lambda>p. effects (snd p)) (ReadMessage sample_world) = Some [Fetched 0, Committed 0] \<and>
   map_option (\<lambda>p. (fst p, effects (snd p)))
       (loop_turn sample_lib sample_columns 7 sample_world)
     = Some (Returned None, [Fetched 0, Committed 0, Persisted 0, Committed 0]) \<and>
   \<not> commits_follow_outcomes [] [Fetched 0, Committed 0, Persisted 0, Committed 0]"
proof -
  have g: "useConsumerGroup (rdr sample_world)"
    by (simp add: useConsumerGroup_def sample_world_def main_consumer_def NewConsumer_def
        getEnv_def)
  have p: "ParseEvent sample_lib sample_message = Inr sample_user_event"
    by (simp add: ParseEvent_def sample_message_def sample_user_decoded)
       (simp add: sample_user_event_def lookup_def)
  have t: "as_string (lookup sample_user_event ''type'') = Some ''UserCreated''"
    by (simp add: sample_user_event_def lookup_def as_string_def)
  have s: "store (sample_world\<lparr>broker := [], effects := [Fetched 0, Committed 0]\<rparr>) = sample_db"
    by (simp add: sample_world_def)
  have l: "map_option (\<lambda>p. (fst p, effects (snd p)))
       (loop_turn sample_lib sample_columns 7 sample_world)
     = Some (Returned None, [Fetched 0, Committed 0, Persisted 0, Committed 0])"
    by (simp add: loop_turn_def sample_world_read processMessage_def p t s sample_user_upsert
        CommitMessage_def Reader_CommitMessages_def Let_def)
       (simp add: sample_message_def)
  from g l show ?thesis by (simp add: sample_world_read)
qed

end
